theory Spec2Isabelle
  imports Main
begin

section \<open>Strings\<close>

text \<open>
  JavaScript strings are modelled as \<^typ>\<open>string\<close>: one \<^typ>\<open>char\<close> per code unit (the
  Latin-1 range). \<open>String.length\<close> is \<^const>\<open>length\<close>.
\<close>

abbreviation newline :: char where
  "newline \<equiv> CHR 0x0A"

text \<open>The characters that \<open>\s\<close> and \<open>String.prototype.trim\<close> treat as white space
  (tab, line feed, vertical tab, form feed, carriage return, space, no-break space).\<close>

definition isWhiteSpace :: "char \<Rightarrow> bool" where
  "isWhiteSpace c = (c \<in> set [CHR 0x09, CHR 0x0A, CHR 0x0B, CHR 0x0C, CHR 0x0D, CHR 0x20, CHR 0xA0])"

definition isDigit :: "char \<Rightarrow> bool" where
  "isDigit c = (c \<in> set ''0123456789'')"

text \<open>\<open>parseInt(d, 10)\<close> on a one-digit string.\<close>

definition digitValue :: "char \<Rightarrow> nat" where
  "digitValue c = of_char c - 48"

text \<open>\<open>s.endsWith('\n')\<close>\<close>

definition endsWithNewline :: "string \<Rightarrow> bool" where
  "endsWithNewline s = (s \<noteq> [] \<and> last s = newline)"

text \<open>\<open>s.endsWith('\n\n')\<close>\<close>

definition endsWithDoubleNewline :: "string \<Rightarrow> bool" where
  "endsWithDoubleNewline s = (2 \<le> length s \<and> drop (length s - 2) s = [newline, newline])"

text \<open>\<open>s.trim()\<close>\<close>

definition trim :: "string \<Rightarrow> string" where
  "trim s = rev (dropWhile isWhiteSpace (rev (dropWhile isWhiteSpace s)))"

text \<open>\<open>s.repeat(n)\<close>\<close>

definition repeat :: "string \<Rightarrow> nat \<Rightarrow> string" where
  "repeat s n = concat (replicate n s)"

text \<open>\<open>s.split('\n')\<close>: the pieces between line feeds; never the empty list.\<close>

fun splitLines :: "string \<Rightarrow> string list" where
  "splitLines [] = [[]]"
| "splitLines (c # cs) =
     (if c = newline then [] # splitLines cs
      else (case splitLines cs of l # ls \<Rightarrow> (c # l) # ls | [] \<Rightarrow> [[c]]))"

text \<open>\<open>s.replace(/\n/g, ' ')\<close>\<close>

definition replaceNewlines :: "string \<Rightarrow> string" where
  "replaceNewlines s = map (\<lambda>c. if c = newline then CHR '' '' else c) s"

section \<open>Reverse renderer: \<open>docsToMarkdown.ts\<close>\<close>

subsection \<open>Document model\<close>

datatype docLink = DocLink (url: "string option")

text \<open>\<open>textStyle\<close> of a text run. The boolean fields are the truthiness of the JSON
  fields; \<open>ts_fontFamily\<close> is \<open>weightedFontFamily?.fontFamily\<close> when that is a string.\<close>

record textStyle =
  ts_bold :: bool
  ts_italic :: bool
  ts_strikethrough :: bool
  ts_underline :: bool
  ts_link :: "docLink option"
  ts_fontFamily :: "string option"

record textRun =
  run_content :: "string option"
  run_textStyle :: "textStyle option"

datatype paragraphElement = TextRunElement textRun | OtherParagraphElement

record bulletInfo =
  b_nestingLevel :: "nat option"
  b_listId :: "string option"

record docParagraph =
  p_namedStyleType :: "string option"
  p_bullet :: "bulletInfo option"
  p_elements :: "paragraphElement list option"

record nestingLevelInfo =
  glyphType :: "string option"

text \<open>\<open>lists[listId]?.listProperties?.nestingLevels\<close>, \<open>None\<close> when any link is missing.\<close>

type_synonym listRegistry = "string \<rightharpoonup> nestingLevelInfo list"

datatype cellBlock = CellParagraph "paragraphElement list option" | CellOther

record tableCell =
  c_content :: "cellBlock list option"

record tableRow =
  r_tableCells :: "tableCell list option"

record docTable =
  t_tableRows :: "tableRow list option"

datatype structuralElement =
    ParagraphElem docParagraph
  | TableElem docTable
  | SectionBreakElem
  | OtherElem

record docBody =
  body_content :: "structuralElement list option"

record docData =
  d_body :: "docBody option"
  d_lists :: "listRegistry option"

subsection \<open>Text runs\<close>

definition CODE_FONT_FAMILIES :: "string list" where
  "CODE_FONT_FAMILIES = [''Roboto Mono'', ''Courier New'', ''Consolas'', ''monospace'']"

definition isCodeStyled :: "textStyle \<Rightarrow> bool" where
  "isCodeStyled style =
     (case ts_fontFamily style of None \<Rightarrow> False
      | Some fontFamily \<Rightarrow> fontFamily \<in> set CODE_FONT_FAMILIES)"

text \<open>\<open>style.link?.url\<close>, when truthy.\<close>

definition linkUrl :: "textStyle \<Rightarrow> string option" where
  "linkUrl style =
     (case ts_link style of None \<Rightarrow> None
      | Some l \<Rightarrow> (case url l of None \<Rightarrow> None
                  | Some u \<Rightarrow> if u = [] then None else Some u))"

definition convertTextRun :: "textRun \<Rightarrow> string" where
  "convertTextRun textRun =
     (let text = (case run_content textRun of None \<Rightarrow> [] | Some c \<Rightarrow> c) in
      case run_textStyle textRun of
        None \<Rightarrow> text
      | Some style \<Rightarrow>
          if isCodeStyled style then
            (let trimmed = (if endsWithNewline text then butlast text else text) in
             if trimmed \<noteq> [] then
               ''`'' @ trimmed @ ''`'' @ (if endsWithNewline text then [newline] else [])
             else text)
          else
            (let trailingNewline = endsWithNewline text;
                 content = (if trailingNewline then butlast text else text) in
             if content = [] then text
             else
               (let formatted = content;
                    formatted =
                      (if ts_bold style \<and> ts_italic style then ''***'' @ formatted @ ''***''
                       else if ts_bold style then ''**'' @ formatted @ ''**''
                       else if ts_italic style then ''*'' @ formatted @ ''*''
                       else formatted);
                    formatted =
                      (if ts_strikethrough style then ''~~'' @ formatted @ ''~~'' else formatted);
                    formatted =
                      (if ts_underline style \<and> ts_link style = None
                       then ''<u>'' @ formatted @ ''</u>'' else formatted);
                    formatted =
                      (case linkUrl style of
                         Some u \<Rightarrow> ''['' @ formatted @ '']('' @ u @ '')''
                       | None \<Rightarrow> formatted)
                in formatted @ (if trailingNewline then [newline] else []))))"

fun extractFormattedText :: "paragraphElement list \<Rightarrow> string" where
  "extractFormattedText [] = []"
| "extractFormattedText (TextRunElement r # es) = convertTextRun r @ extractFormattedText es"
| "extractFormattedText (OtherParagraphElement # es) = extractFormattedText es"

subsection \<open>Paragraphs\<close>

text \<open>\<open>getHeadingLevel\<close> of the renderer: \<open>TITLE\<close>, \<open>SUBTITLE\<close>, or
  \<open>/^HEADING_(\d)$/\<close>.\<close>

definition getHeadingLevelOfParagraph :: "docParagraph \<Rightarrow> nat option" where
  "getHeadingLevelOfParagraph paragraph =
     (case p_namedStyleType paragraph of
        None \<Rightarrow> None
      | Some styleType \<Rightarrow>
          if styleType = [] then None
          else if styleType = ''TITLE'' then Some 1
          else if styleType = ''SUBTITLE'' then Some 2
          else if length styleType = 9 \<and> take 8 styleType = ''HEADING_'' \<and> isDigit (last styleType)
          then Some (digitValue (last styleType))
          else None)"

record listInfo =
  li_ordered :: bool
  li_nestingLevel :: nat

definition getListInfo :: "docParagraph \<Rightarrow> listRegistry \<Rightarrow> listInfo option" where
  "getListInfo paragraph registry =
     (case p_bullet paragraph of
        None \<Rightarrow> None
      | Some bullet \<Rightarrow>
          (let nestingLevel = (case b_nestingLevel bullet of None \<Rightarrow> 0 | Some n \<Rightarrow> n);
               ordered =
                 (case b_listId bullet of
                    None \<Rightarrow> False
                  | Some listId \<Rightarrow>
                      if listId = [] then False
                      else (case registry listId of
                              None \<Rightarrow> False
                            | Some nestingLevels \<Rightarrow>
                                if nestingLevel < length nestingLevels then
                                  (case glyphType (nestingLevels ! nestingLevel) of
                                     None \<Rightarrow> False
                                   | Some g \<Rightarrow> g \<noteq> [] \<and> g \<noteq> ''GLYPH_TYPE_UNSPECIFIED'')
                                else False))
           in Some \<lparr>li_ordered = ordered, li_nestingLevel = nestingLevel\<rparr>))"

definition convertParagraph :: "docParagraph \<Rightarrow> listRegistry \<Rightarrow> string" where
  "convertParagraph paragraph registry =
     (let headingLevel = getHeadingLevelOfParagraph paragraph;
          listInfo = getListInfo paragraph registry;
          elements = (case p_elements paragraph of None \<Rightarrow> [] | Some es \<Rightarrow> es);
          text = extractFormattedText elements
      in if headingLevel \<noteq> None \<and> headingLevel \<noteq> Some 0 \<and> trim text \<noteq> [] then
           repeat ''#'' (min (the headingLevel) 6) @ '' '' @ trim text @ [newline, newline]
         else if listInfo \<noteq> None \<and> trim text \<noteq> [] then
           repeat ''  '' (li_nestingLevel (the listInfo)) @
           (if li_ordered (the listInfo) then ''1.'' else ''-'') @ '' '' @ trim text @ [newline]
         else if trim text \<noteq> [] then trim text @ [newline, newline]
         else [newline])"

subsection \<open>Tables\<close>

fun cellRunsText :: "paragraphElement list \<Rightarrow> string" where
  "cellRunsText [] = []"
| "cellRunsText (TextRunElement r # pes) =
     (case run_content r of
        None \<Rightarrow> cellRunsText pes
      | Some c \<Rightarrow> (if c = [] then [] else trim (replaceNewlines c)) @ cellRunsText pes)"
| "cellRunsText (OtherParagraphElement # pes) = cellRunsText pes"

fun cellBlocksText :: "cellBlock list \<Rightarrow> string" where
  "cellBlocksText [] = []"
| "cellBlocksText (CellParagraph (Some pes) # bs) = cellRunsText pes @ cellBlocksText bs"
| "cellBlocksText (_ # bs) = cellBlocksText bs"

definition extractCellText :: "tableCell \<Rightarrow> string" where
  "extractCellText cell =
     (case c_content cell of None \<Rightarrow> [] | Some bs \<Rightarrow> cellBlocksText bs)"

fun rowCellsText :: "tableCell list \<Rightarrow> string" where
  "rowCellsText [] = []"
| "rowCellsText (cell # cells) = '' '' @ extractCellText cell @ '' |'' @ rowCellsText cells"

text \<open>The loop over \<open>table.tableRows\<close>, carrying \<open>isFirstRow\<close>.\<close>

fun convertRows :: "tableRow list \<Rightarrow> bool \<Rightarrow> string" where
  "convertRows [] isFirstRow = []"
| "convertRows (row # rows) isFirstRow =
     (case r_tableCells row of
        None \<Rightarrow> convertRows rows isFirstRow
      | Some cells \<Rightarrow>
          ''|'' @ rowCellsText cells @ [newline] @
          (if isFirstRow
           then ''|'' @ repeat '' --- |'' (length cells) @ [newline] @ convertRows rows False
           else convertRows rows isFirstRow))"

definition convertTable :: "docTable \<Rightarrow> string" where
  "convertTable table =
     (case t_tableRows table of
        None \<Rightarrow> []
      | Some rows \<Rightarrow>
          if rows = [] then []
          else [newline] @ convertRows rows True @ [newline])"

subsection \<open>Main conversion\<close>

text \<open>The body of the loop over \<open>body.content\<close>: what one element adds to \<open>markdown\<close>.\<close>

definition convertElement :: "structuralElement \<Rightarrow> listRegistry \<Rightarrow> string" where
  "convertElement element registry =
     (case element of
        ParagraphElem p \<Rightarrow> convertParagraph p registry
      | TableElem t \<Rightarrow> convertTable t
      | SectionBreakElem \<Rightarrow> [newline] @ ''---'' @ [newline, newline]
      | OtherElem \<Rightarrow> [])"

fun convertElements :: "structuralElement list \<Rightarrow> listRegistry \<Rightarrow> string" where
  "convertElements [] registry = []"
| "convertElements (element # es) registry =
     convertElement element registry @ convertElements es registry"

definition docsJsonToMarkdown :: "docData \<Rightarrow> string" where
  "docsJsonToMarkdown docData =
     (case d_body docData of
        None \<Rightarrow> []
      | Some body \<Rightarrow>
          (case body_content body of
             None \<Rightarrow> []
           | Some elems \<Rightarrow>
               (let registry = (case d_lists docData of None \<Rightarrow> Map.empty | Some l \<Rightarrow> l)
                in trim (convertElements elems registry))))"

section \<open>Forward compiler: \<open>markdownToDocsRequests.ts\<close>\<close>

subsection \<open>Tokens\<close>

text \<open>A markdown-it token: \<open>type\<close>, \<open>tag\<close>, \<open>content\<close>, \<open>attrs\<close> and \<open>children\<close>
  (the last two may be \<open>null\<close>).\<close>

datatype token =
  Token (ttype: string) (tag: string) (content: string)
        (attrs: "(string \<times> string) list option") (children: "token list option")

definition getLinkHref :: "token \<Rightarrow> string option" where
  "getLinkHref tok =
     (if ttype tok \<noteq> ''link_open'' then None
      else (case attrs tok of
              None \<Rightarrow> None
            | Some ats \<Rightarrow> (case find (\<lambda>attr. fst attr = ''href'') ats of
                            None \<Rightarrow> None
                          | Some hrefAttr \<Rightarrow> Some (snd hrefAttr))))"

text \<open>\<open>tag.match(/h(\d)/)\<close>: the digit after the first \<open>h\<close> that is followed by one.\<close>

fun matchHDigit :: "string \<Rightarrow> char option" where
  "matchHDigit (a # b # rest) =
     (if a = CHR ''h'' \<and> isDigit b then Some b else matchHDigit (b # rest))"
| "matchHDigit _ = None"

definition getHeadingLevel :: "token \<Rightarrow> nat option" where
  "getHeadingLevel tok =
     (if take 8 (ttype tok) \<noteq> ''heading_'' then None
      else (case matchHDigit (tag tok) of
              None \<Rightarrow> None
            | Some d \<Rightarrow> Some (digitValue d)))"

subsection \<open>Internal types\<close>

record formattingState =
  fs_bold :: "bool option"
  fs_italic :: "bool option"
  fs_strikethrough :: "bool option"
  fs_link :: "string option"
  fs_code :: "bool option"

definition emptyFormatting :: formattingState where
  "emptyFormatting =
     \<lparr>fs_bold = None, fs_italic = None, fs_strikethrough = None, fs_link = None, fs_code = None\<rparr>"

record textRange =
  tr_startIndex :: int
  tr_endIndex :: int
  tr_formatting :: formattingState

record paragraphRange =
  pr_startIndex :: int
  pr_endIndex :: int
  pr_namedStyleType :: "string option"

datatype listType = Bullet | Ordered

record listState =
  ls_type :: listType
  ls_level :: nat

datatype bulletPreset =
  NUMBERED_DECIMAL_ALPHA_ROMAN | BULLET_DISC_CIRCLE_SQUARE | BULLET_CHECKBOX

record pendingListItem =
  pli_startIndex :: int
  pli_endIndex :: "int option"
  pli_nestingLevel :: nat
  pli_bulletPreset :: bulletPreset
  pli_taskPrefixProcessed :: bool

record hrRange =
  hr_startIndex :: int
  hr_endIndex :: int

subsection \<open>Requests\<close>

record location =
  loc_index :: int
  loc_tabId :: "string option"

record docRange =
  rg_startIndex :: int
  rg_endIndex :: int
  rg_tabId :: "string option"

text \<open>The style argument of \<open>buildUpdateTextStyleRequest\<close>.\<close>

record textStyleArgs =
  arg_bold :: "bool option"
  arg_italic :: "bool option"
  arg_strikethrough :: "bool option"
  arg_fontFamily :: "string option"
  arg_foregroundColor :: "string option"
  arg_backgroundColor :: "string option"
  arg_linkUrl :: "string option"

text \<open>The Docs API requests the compiler emits: \<open>insertText\<close>, \<open>updateTextStyle\<close>,
  \<open>updateParagraphStyle\<close> with a named style, \<open>updateParagraphStyle\<close> with the bottom border
  of a horizontal rule, and \<open>createParagraphBullets\<close>.\<close>

datatype request =
    InsertText location string
  | UpdateTextStyle docRange textStyleArgs
  | UpdateParagraphStyle docRange string
  | UpdateParagraphBorder docRange
  | CreateParagraphBullets docRange bulletPreset

text \<open>\<open>if (context.tabId) location.tabId = context.tabId\<close>: an empty id is not attached.\<close>

definition truthyTab :: "string option \<Rightarrow> string option" where
  "truthyTab t = (case t of None \<Rightarrow> None | Some s \<Rightarrow> if s = [] then None else Some s)"

text \<open>Modelled from the spec: \<open>buildUpdateTextStyleRequest\<close> of \<open>googleDocsApiHelpers.ts\<close>,
  which is not among the sources. The spec has finalization emit one style operation per
  text range, over the range it is given, carrying the sub-document identifier.\<close>

definition buildUpdateTextStyleRequest ::
  "int \<Rightarrow> int \<Rightarrow> textStyleArgs \<Rightarrow> string option \<Rightarrow> request option" where
  "buildUpdateTextStyleRequest startIndex endIndex style tab =
     Some (UpdateTextStyle
        \<lparr>rg_startIndex = startIndex, rg_endIndex = endIndex, rg_tabId = truthyTab tab\<rparr> style)"

text \<open>Modelled from the spec: \<open>buildUpdateParagraphStyleRequest\<close> of
  \<open>googleDocsApiHelpers.ts\<close>, which is not among the sources. The spec has finalization
  emit one paragraph-style operation per paragraph range, with its named style.\<close>

definition buildUpdateParagraphStyleRequest ::
  "int \<Rightarrow> int \<Rightarrow> string \<Rightarrow> string option \<Rightarrow> request option" where
  "buildUpdateParagraphStyleRequest startIndex endIndex namedStyleType tab =
     Some (UpdateParagraphStyle
        \<lparr>rg_startIndex = startIndex, rg_endIndex = endIndex, rg_tabId = truthyTab tab\<rparr>
        namedStyleType)"

subsection \<open>Conversion state\<close>

record conversionContext =
  currentIndex :: int
  insertRequests :: "request list"
  formatRequests :: "request list"
  textRanges :: "textRange list"
  formattingStack :: "formattingState list"
  listStack :: "listState list"
  paragraphRanges :: "paragraphRange list"
  pendingListItems :: "pendingListItem list"
  openListItemStack :: "nat list"
  hrRanges :: "hrRange list"
  tabId :: "string option"
  currentParagraphStart :: "int option"
  currentHeadingLevel :: "nat option"
  titleConsumed :: bool
  firstHeadingAsTitle :: bool

text \<open>What the source can throw: its own \<open>MarkdownConversionError\<close>, or a JavaScript
  \<open>Error\<close> with a message.\<close>

datatype exn = MarkdownConversionError string | JsError string

definition CODE_FONT_FAMILY :: string where
  "CODE_FONT_FAMILY = ''Roboto Mono''"

definition CODE_TEXT_HEX :: string where
  "CODE_TEXT_HEX = ''#188038''"

definition CODE_BACKGROUND_HEX :: string where
  "CODE_BACKGROUND_HEX = ''#F1F3F4''"

subsection \<open>Utilities\<close>

text \<open>Decimal digits of a number, as a template literal prints it.\<close>

function showNat :: "nat \<Rightarrow> string" where
  "showNat n =
     (if n < 10 then [char_of (48 + n)]
      else showNat (n div 10) @ [char_of (48 + n mod 10)])"
  by pat_completeness auto
termination
  by (relation "measure id") auto

definition insertText :: "string \<Rightarrow> conversionContext \<Rightarrow> conversionContext" where
  "insertText text ctx =
     ctx\<lparr>insertRequests :=
           insertRequests ctx @
           [InsertText \<lparr>loc_index = currentIndex ctx, loc_tabId = truthyTab (tabId ctx)\<rparr> text],
         currentIndex := currentIndex ctx + int (length text)\<rparr>"

definition getCurrentOpenListItem :: "conversionContext \<Rightarrow> pendingListItem option" where
  "getCurrentOpenListItem ctx =
     (if openListItemStack ctx = [] then None
      else (let openIndex = last (openListItemStack ctx)
            in if openIndex < length (pendingListItems ctx)
               then Some (pendingListItems ctx ! openIndex) else None))"

text \<open>The source mutates the object \<open>getCurrentOpenListItem\<close> returned, which is the entry
  of \<open>pendingListItems\<close> at the top index of \<open>openListItemStack\<close>.\<close>

definition updateCurrentOpenListItem ::
  "(pendingListItem \<Rightarrow> pendingListItem) \<Rightarrow> conversionContext \<Rightarrow> conversionContext" where
  "updateCurrentOpenListItem f ctx =
     (let openIndex = last (openListItemStack ctx)
      in ctx\<lparr>pendingListItems :=
               (pendingListItems ctx)[openIndex := f (pendingListItems ctx ! openIndex)]\<rparr>)"

definition lastInsertText :: "conversionContext \<Rightarrow> string option" where
  "lastInsertText ctx =
     (if insertRequests ctx = [] then None
      else (case last (insertRequests ctx) of
              InsertText _ t \<Rightarrow> Some t
            | _ \<Rightarrow> None))"

definition lastInsertEndsWithNewline :: "conversionContext \<Rightarrow> bool" where
  "lastInsertEndsWithNewline ctx =
     (case lastInsertText ctx of None \<Rightarrow> False | Some t \<Rightarrow> t \<noteq> [] \<and> endsWithNewline t)"

definition lastInsertEndsWithDoubleNewline :: "conversionContext \<Rightarrow> bool" where
  "lastInsertEndsWithDoubleNewline ctx =
     (case lastInsertText ctx of None \<Rightarrow> False | Some t \<Rightarrow> t \<noteq> [] \<and> endsWithDoubleNewline t)"

subsection \<open>Formatting stack\<close>

definition mergeFormattingStack :: "formattingState list \<Rightarrow> formattingState" where
  "mergeFormattingStack stack =
     foldl (\<lambda>merged state.
              \<lparr>fs_bold = (if fs_bold state \<noteq> None then fs_bold state else fs_bold merged),
               fs_italic = (if fs_italic state \<noteq> None then fs_italic state else fs_italic merged),
               fs_strikethrough =
                 (if fs_strikethrough state \<noteq> None then fs_strikethrough state
                  else fs_strikethrough merged),
               fs_link = (if fs_link state \<noteq> None then fs_link state else fs_link merged),
               fs_code = (if fs_code state \<noteq> None then fs_code state else fs_code merged)\<rparr>)
           emptyFormatting stack"

definition hasFormatting :: "formattingState \<Rightarrow> bool" where
  "hasFormatting formatting =
     (fs_bold formatting = Some True \<or> fs_italic formatting = Some True \<or>
      fs_strikethrough formatting = Some True \<or> fs_code formatting = Some True \<or>
      fs_link formatting \<noteq> None)"

text \<open>\<open>keyof FormattingState\<close>, as far as \<open>popFormatting\<close> is called.\<close>

datatype formattingKey = KeyBold | KeyItalic | KeyStrikethrough | KeyLink | KeyCode

definition hasKey :: "formattingKey \<Rightarrow> formattingState \<Rightarrow> bool" where
  "hasKey k state =
     (case k of
        KeyBold \<Rightarrow> fs_bold state \<noteq> None
      | KeyItalic \<Rightarrow> fs_italic state \<noteq> None
      | KeyStrikethrough \<Rightarrow> fs_strikethrough state \<noteq> None
      | KeyLink \<Rightarrow> fs_link state \<noteq> None
      | KeyCode \<Rightarrow> fs_code state \<noteq> None)"

fun removeFirst :: "('a \<Rightarrow> bool) \<Rightarrow> 'a list \<Rightarrow> 'a list" where
  "removeFirst p [] = []"
| "removeFirst p (x # xs) = (if p x then xs else x # removeFirst p xs)"

text \<open>The loop runs from the top of the stack (the end of the array) downwards and
  splices out the first entry that defines the key.\<close>

definition popFormatting :: "conversionContext \<Rightarrow> formattingKey \<Rightarrow> conversionContext" where
  "popFormatting ctx k =
     ctx\<lparr>formattingStack := rev (removeFirst (hasKey k) (rev (formattingStack ctx)))\<rparr>"

definition pushFormatting :: "formattingState \<Rightarrow> conversionContext \<Rightarrow> conversionContext" where
  "pushFormatting state ctx = ctx\<lparr>formattingStack := formattingStack ctx @ [state]\<rparr>"

subsection \<open>Heading, rule and paragraph handlers\<close>

definition handleHeadingOpen :: "token \<Rightarrow> conversionContext \<Rightarrow> conversionContext" where
  "handleHeadingOpen tok ctx =
     (case getHeadingLevel tok of
        None \<Rightarrow> ctx
      | Some level \<Rightarrow>
          if level = 0 then ctx
          else ctx\<lparr>currentHeadingLevel := Some level,
                   currentParagraphStart := Some (currentIndex ctx)\<rparr>)"

definition handleHeadingClose :: "conversionContext \<Rightarrow> conversionContext" where
  "handleHeadingClose ctx =
     (case (currentHeadingLevel ctx, currentParagraphStart ctx) of
        (Some level, Some paragraphStart) \<Rightarrow>
          if level = 0 then ctx
          else
            (let useTitle = (firstHeadingAsTitle ctx \<and> \<not> titleConsumed ctx \<and> level = 1);
                 ctx = (if useTitle then ctx\<lparr>titleConsumed := True\<rparr> else ctx);
                 ctx = ctx\<lparr>paragraphRanges := paragraphRanges ctx @
                         [\<lparr>pr_startIndex = paragraphStart, pr_endIndex = currentIndex ctx,
                           pr_namedStyleType =
                             Some (if useTitle then ''TITLE'' else ''HEADING_'' @ showNat level)\<rparr>]\<rparr>;
                 ctx = insertText [newline] ctx
             in ctx\<lparr>currentHeadingLevel := None, currentParagraphStart := None\<rparr>)
      | _ \<Rightarrow> ctx)"

definition handleHorizontalRule :: "conversionContext \<Rightarrow> conversionContext" where
  "handleHorizontalRule ctx =
     (let ctx = (if \<not> lastInsertEndsWithNewline ctx then insertText [newline] ctx else ctx);
          start = currentIndex ctx;
          ctx = insertText [newline] ctx
      in ctx\<lparr>hrRanges := hrRanges ctx @
               [\<lparr>hr_startIndex = start, hr_endIndex = currentIndex ctx\<rparr>]\<rparr>)"

definition handleParagraphOpen :: "conversionContext \<Rightarrow> conversionContext" where
  "handleParagraphOpen ctx =
     (if length (listStack ctx) = 0 then ctx\<lparr>currentParagraphStart := Some (currentIndex ctx)\<rparr>
      else ctx)"

definition handleParagraphClose :: "conversionContext \<Rightarrow> conversionContext" where
  "handleParagraphClose ctx =
     (let ctx = (if \<not> lastInsertEndsWithNewline ctx then insertText [newline] ctx else ctx);
          ctx =
            (case getCurrentOpenListItem ctx of
               None \<Rightarrow> ctx
             | Some currentListItem \<Rightarrow>
                 (let paragraphEndIndex =
                        (if lastInsertEndsWithNewline ctx then currentIndex ctx - 1
                         else currentIndex ctx)
                  in if paragraphEndIndex > pli_startIndex currentListItem
                     then updateCurrentOpenListItem
                            (\<lambda>item. item\<lparr>pli_endIndex := Some paragraphEndIndex\<rparr>) ctx
                     else ctx))
      in ctx\<lparr>currentParagraphStart := None\<rparr>)"

subsection \<open>List handlers\<close>

definition handleListItemOpen :: "conversionContext \<Rightarrow> exn + conversionContext" where
  "handleListItemOpen ctx =
     (if length (listStack ctx) = 0
      then Inl (MarkdownConversionError ''List item found outside of list context'')
      else
        (let currentList = last (listStack ctx);
             itemStart = currentIndex ctx;
             ctx = (if ls_level currentList > 0
                    then insertText (repeat [CHR 0x09] (ls_level currentList)) ctx else ctx);
             listItem =
               \<lparr>pli_startIndex = itemStart, pli_endIndex = None,
                pli_nestingLevel = ls_level currentList,
                pli_bulletPreset =
                  (if ls_type currentList = Ordered then NUMBERED_DECIMAL_ALPHA_ROMAN
                   else BULLET_DISC_CIRCLE_SQUARE),
                pli_taskPrefixProcessed = False\<rparr>;
             ctx = ctx\<lparr>pendingListItems := pendingListItems ctx @ [listItem]\<rparr>
         in Inr (ctx\<lparr>openListItemStack :=
                        openListItemStack ctx @ [length (pendingListItems ctx) - 1]\<rparr>)))"

text \<open>Reading \<open>listItem.endIndex\<close> of an index outside \<open>pendingListItems\<close> would be a
  \<open>TypeError\<close>.\<close>

definition handleListItemClose :: "conversionContext \<Rightarrow> exn + conversionContext" where
  "handleListItemClose ctx =
     (if openListItemStack ctx = [] then Inr ctx
      else
        (let openIndex = last (openListItemStack ctx);
             ctx = ctx\<lparr>openListItemStack := butlast (openListItemStack ctx)\<rparr>
         in if \<not> openIndex < length (pendingListItems ctx)
            then Inl (JsError ''Cannot read properties of undefined'')
            else
              (let listItem = pendingListItems ctx ! openIndex;
                   ctx =
                     (if pli_endIndex listItem = None then
                        (let computedEndIndex =
                               (if lastInsertEndsWithNewline ctx then currentIndex ctx - 1
                                else currentIndex ctx)
                         in if computedEndIndex > pli_startIndex listItem
                            then ctx\<lparr>pendingListItems :=
                                       (pendingListItems ctx)
                                         [openIndex := listItem\<lparr>pli_endIndex := Some computedEndIndex\<rparr>]\<rparr>
                            else ctx)
                      else ctx)
               in Inr (if \<not> lastInsertEndsWithNewline ctx then insertText [newline] ctx
                       else ctx))))"

subsection \<open>Text handling\<close>

text \<open>\<open>text.match(/^\[( |x|X)\]\s+/)\<close>: the length of the match.\<close>

definition matchTaskPrefix :: "string \<Rightarrow> nat option" where
  "matchTaskPrefix s =
     (case s of
        a # b # c # rest \<Rightarrow>
          if a = CHR ''['' \<and> (b = CHR '' '' \<or> b = CHR ''x'' \<or> b = CHR ''X'') \<and> c = CHR '']''
             \<and> rest \<noteq> [] \<and> isWhiteSpace (hd rest)
          then Some (3 + length (takeWhile isWhiteSpace rest))
          else None
      | _ \<Rightarrow> None)"

definition handleTextToken :: "token \<Rightarrow> conversionContext \<Rightarrow> conversionContext" where
  "handleTextToken tok ctx =
     (let text = content tok in
      if text = [] then ctx
      else
        (let (text, ctx) =
               (case getCurrentOpenListItem ctx of
                  None \<Rightarrow> (text, ctx)
                | Some currentListItem \<Rightarrow>
                    if pli_taskPrefixProcessed currentListItem then (text, ctx)
                    else
                      (let ctx = updateCurrentOpenListItem
                                   (\<lambda>item. item\<lparr>pli_taskPrefixProcessed := True\<rparr>) ctx
                       in case matchTaskPrefix text of
                            None \<Rightarrow> (text, ctx)
                          | Some n \<Rightarrow>
                              (drop n text,
                               updateCurrentOpenListItem
                                 (\<lambda>item. item\<lparr>pli_bulletPreset := BULLET_CHECKBOX\<rparr>) ctx)))
         in if text = [] then ctx
            else
              (let startIndex = currentIndex ctx;
                   endIndex = startIndex + int (length text);
                   ctx = insertText text ctx;
                   currentFormatting = mergeFormattingStack (formattingStack ctx)
               in if hasFormatting currentFormatting
                  then ctx\<lparr>textRanges := textRanges ctx @
                             [\<lparr>tr_startIndex = startIndex, tr_endIndex = endIndex,
                               tr_formatting = currentFormatting\<rparr>]\<rparr>
                  else ctx)))"

definition handleCodeInlineToken :: "token \<Rightarrow> conversionContext \<Rightarrow> conversionContext" where
  "handleCodeInlineToken tok ctx =
     popFormatting
       (handleTextToken tok (pushFormatting (emptyFormatting\<lparr>fs_code := Some True\<rparr>) ctx))
       KeyCode"

text \<open>The loop over the lines of a code block.\<close>

fun codeBlockLines :: "string list \<Rightarrow> conversionContext \<Rightarrow> conversionContext" where
  "codeBlockLines [] ctx = ctx"
| "codeBlockLines (line # rest) ctx =
     (let startIndex = currentIndex ctx;
          ctx = (if length line > 0 then insertText line ctx else insertText '' '' ctx);
          ctx = ctx\<lparr>textRanges := textRanges ctx @
                  [\<lparr>tr_startIndex = startIndex, tr_endIndex = currentIndex ctx,
                    tr_formatting = emptyFormatting\<lparr>fs_code := Some True\<rparr>\<rparr>]\<rparr>;
          ctx = insertText [newline] ctx
      in codeBlockLines rest ctx)"

definition handleCodeBlockToken :: "token \<Rightarrow> conversionContext \<Rightarrow> conversionContext" where
  "handleCodeBlockToken tok ctx =
     (let normalizedContent =
            (if endsWithNewline (content tok) then butlast (content tok) else content tok);
          lines = (if length normalizedContent > 0 then splitLines normalizedContent else [[]]);
          ctx = codeBlockLines lines ctx
      in if \<not> lastInsertEndsWithDoubleNewline ctx then insertText [newline] ctx else ctx)"

subsection \<open>Token processing\<close>

text \<open>The \<open>switch\<close> of \<open>processToken\<close>, case by case in the order of the source; the loop
  over the children of an \<open>inline\<close> token, and the loop of the caller over the top-level
  tokens, are \<open>processTokens\<close>. A throw ends the walk.\<close>

fun processToken :: "token \<Rightarrow> conversionContext \<Rightarrow> exn + conversionContext"
  and processTokens :: "token list \<Rightarrow> conversionContext \<Rightarrow> exn + conversionContext" where
  "processToken (Token ty tg c ats ch) ctx =
     (if ty = ''heading_open'' then Inr (handleHeadingOpen (Token ty tg c ats ch) ctx)
      else if ty = ''heading_close'' then Inr (handleHeadingClose ctx)
      else if ty = ''paragraph_open'' then Inr (handleParagraphOpen ctx)
      else if ty = ''paragraph_close'' then Inr (handleParagraphClose ctx)
      else if ty = ''text'' then Inr (handleTextToken (Token ty tg c ats ch) ctx)
      else if ty = ''code_inline'' then Inr (handleCodeInlineToken (Token ty tg c ats ch) ctx)
      else if ty = ''strong_open''
        then Inr (pushFormatting (emptyFormatting\<lparr>fs_bold := Some True\<rparr>) ctx)
      else if ty = ''strong_close'' then Inr (popFormatting ctx KeyBold)
      else if ty = ''em_open''
        then Inr (pushFormatting (emptyFormatting\<lparr>fs_italic := Some True\<rparr>) ctx)
      else if ty = ''em_close'' then Inr (popFormatting ctx KeyItalic)
      else if ty = ''s_open''
        then Inr (pushFormatting (emptyFormatting\<lparr>fs_strikethrough := Some True\<rparr>) ctx)
      else if ty = ''s_close'' then Inr (popFormatting ctx KeyStrikethrough)
      else if ty = ''link_open'' then
        (case getLinkHref (Token ty tg c ats ch) of
           None \<Rightarrow> Inr ctx
         | Some href \<Rightarrow>
             if href = [] then Inr ctx
             else Inr (pushFormatting (emptyFormatting\<lparr>fs_link := Some href\<rparr>) ctx))
      else if ty = ''link_close'' then Inr (popFormatting ctx KeyLink)
      else if ty = ''bullet_list_open''
        then Inr (ctx\<lparr>listStack := listStack ctx @
                        [\<lparr>ls_type = Bullet, ls_level = length (listStack ctx)\<rparr>]\<rparr>)
      else if ty = ''bullet_list_close'' then Inr (ctx\<lparr>listStack := butlast (listStack ctx)\<rparr>)
      else if ty = ''ordered_list_open''
        then Inr (ctx\<lparr>listStack := listStack ctx @
                        [\<lparr>ls_type = Ordered, ls_level = length (listStack ctx)\<rparr>]\<rparr>)
      else if ty = ''ordered_list_close'' then Inr (ctx\<lparr>listStack := butlast (listStack ctx)\<rparr>)
      else if ty = ''list_item_open'' then handleListItemOpen ctx
      else if ty = ''list_item_close'' then handleListItemClose ctx
      else if ty = ''softbreak'' then Inr (insertText '' '' ctx)
      else if ty = ''hardbreak'' then Inr (insertText [newline] ctx)
      else if ty = ''inline'' then
        (case ch of None \<Rightarrow> Inr ctx | Some cs \<Rightarrow> processTokens cs ctx)
      else if ty \<in> set [''table_open'', ''tbody_open'', ''tbody_close'', ''thead_open'',
                         ''thead_close'', ''tr_open'', ''tr_close'', ''th_open'', ''th_close'',
                         ''td_open'', ''td_close'', ''table_close'']
        then Inr ctx
      else if ty = ''fence'' \<or> ty = ''code_block''
        then Inr (handleCodeBlockToken (Token ty tg c ats ch) ctx)
      else if ty = ''hr'' then Inr (handleHorizontalRule ctx)
      else if ty = ''blockquote_open'' \<or> ty = ''blockquote_close'' then Inr ctx
      else Inr ctx)"
| "processTokens [] ctx = Inr ctx"
| "processTokens (t # ts) ctx =
     (case processToken t ctx of
        Inl e \<Rightarrow> Inl e
      | Inr ctx' \<Rightarrow> processTokens ts ctx')"

subsection \<open>Finalization\<close>

text \<open>JavaScript truthiness of an optional boolean and of an optional string.\<close>

definition truthyBool :: "bool option \<Rightarrow> bool" where
  "truthyBool b = (b = Some True)"

definition truthyString :: "string option \<Rightarrow> bool" where
  "truthyString s = (case s of None \<Rightarrow> False | Some t \<Rightarrow> t \<noteq> [])"

definition textRangeRequests :: "string option \<Rightarrow> textRange \<Rightarrow> request list" where
  "textRangeRequests tab rng =
     (if truthyBool (fs_bold (tr_formatting rng)) \<or> truthyBool (fs_italic (tr_formatting rng))
         \<or> truthyBool (fs_strikethrough (tr_formatting rng))
         \<or> truthyBool (fs_code (tr_formatting rng))
      then (case buildUpdateTextStyleRequest (tr_startIndex rng) (tr_endIndex rng)
                   \<lparr>arg_bold = fs_bold (tr_formatting rng),
                    arg_italic = fs_italic (tr_formatting rng),
                    arg_strikethrough = fs_strikethrough (tr_formatting rng),
                    arg_fontFamily =
                      (if truthyBool (fs_code (tr_formatting rng)) then Some CODE_FONT_FAMILY
                       else None),
                    arg_foregroundColor =
                      (if truthyBool (fs_code (tr_formatting rng)) then Some CODE_TEXT_HEX
                       else None),
                    arg_backgroundColor =
                      (if truthyBool (fs_code (tr_formatting rng)) then Some CODE_BACKGROUND_HEX
                       else None),
                    arg_linkUrl = None\<rparr> tab of
              Some styleRequest \<Rightarrow> [styleRequest]
            | None \<Rightarrow> [])
      else []) @
     (if truthyString (fs_link (tr_formatting rng))
      then (case buildUpdateTextStyleRequest (tr_startIndex rng) (tr_endIndex rng)
                   \<lparr>arg_bold = None, arg_italic = None, arg_strikethrough = None,
                    arg_fontFamily = None, arg_foregroundColor = None,
                    arg_backgroundColor = None,
                    arg_linkUrl = fs_link (tr_formatting rng)\<rparr> tab of
              Some linkRequest \<Rightarrow> [linkRequest]
            | None \<Rightarrow> [])
      else [])"

definition paragraphRangeRequests :: "string option \<Rightarrow> paragraphRange \<Rightarrow> request list" where
  "paragraphRangeRequests tab paraRange =
     (case pr_namedStyleType paraRange of
        None \<Rightarrow> []
      | Some namedStyleType \<Rightarrow>
          if namedStyleType = [] then []
          else (case buildUpdateParagraphStyleRequest (pr_startIndex paraRange)
                       (pr_endIndex paraRange) namedStyleType tab of
                  Some paraRequest \<Rightarrow> [paraRequest]
                | None \<Rightarrow> []))"

definition hrRangeRequest :: "string option \<Rightarrow> hrRange \<Rightarrow> request" where
  "hrRangeRequest tab hr =
     UpdateParagraphBorder
       \<lparr>rg_startIndex = hr_startIndex hr, rg_endIndex = hr_endIndex hr, rg_tabId = truthyTab tab\<rparr>"

record mergedListRange =
  mr_startIndex :: int
  mr_endIndex :: int
  mr_bulletPreset :: bulletPreset

text \<open>\<open>item.endIndex !== undefined && item.endIndex > item.startIndex\<close>\<close>

definition validListItem :: "pendingListItem \<Rightarrow> bool" where
  "validListItem item =
     (case pli_endIndex item of None \<Rightarrow> False | Some e \<Rightarrow> e > pli_startIndex item)"

text \<open>\<open>Array.prototype.sort\<close> is stable, as \<^const>\<open>sort_key\<close> is.\<close>

definition validListItems :: "pendingListItem list \<Rightarrow> pendingListItem list" where
  "validListItems items = sort_key pli_startIndex (filter validListItem items)"

text \<open>One round of the merge loop: \<open>last\<close> is the last merged range, if there is one.\<close>

definition mergeListItem :: "mergedListRange list \<Rightarrow> pendingListItem \<Rightarrow> mergedListRange list" where
  "mergeListItem mergedListRanges item =
     (if mergedListRanges \<noteq> []
         \<and> mr_bulletPreset (last mergedListRanges) = pli_bulletPreset item
         \<and> pli_startIndex item \<le> mr_endIndex (last mergedListRanges) + 1
      then butlast mergedListRanges @
           [(last mergedListRanges)
              \<lparr>mr_endIndex := max (mr_endIndex (last mergedListRanges)) (the (pli_endIndex item))\<rparr>]
      else mergedListRanges @
           [\<lparr>mr_startIndex = pli_startIndex item, mr_endIndex = the (pli_endIndex item),
             mr_bulletPreset = pli_bulletPreset item\<rparr>])"

definition mergeListRanges :: "pendingListItem list \<Rightarrow> mergedListRange list" where
  "mergeListRanges items = foldl mergeListItem [] items"

definition bulletRequest :: "string option \<Rightarrow> mergedListRange \<Rightarrow> request" where
  "bulletRequest tab merged =
     CreateParagraphBullets
       \<lparr>rg_startIndex = mr_startIndex merged, rg_endIndex = mr_endIndex merged,
        rg_tabId = truthyTab tab\<rparr>
       (mr_bulletPreset merged)"

text \<open>The merged ranges, sorted bottom-to-top, one request each.\<close>

definition bulletRequests :: "string option \<Rightarrow> pendingListItem list \<Rightarrow> request list" where
  "bulletRequests tab items =
     map (bulletRequest tab)
       (sort_key (\<lambda>m. - mr_startIndex m) (mergeListRanges (validListItems items)))"

definition finalizeFormatting :: "conversionContext \<Rightarrow> conversionContext" where
  "finalizeFormatting ctx =
     ctx\<lparr>formatRequests :=
           formatRequests ctx @
           concat (map (textRangeRequests (tabId ctx)) (textRanges ctx)) @
           concat (map (paragraphRangeRequests (tabId ctx)) (paragraphRanges ctx)) @
           map (hrRangeRequest (tabId ctx)) (hrRanges ctx) @
           bulletRequests (tabId ctx) (pendingListItems ctx)\<rparr>"

subsection \<open>Main conversion function\<close>

definition initialContext :: "int \<Rightarrow> string option \<Rightarrow> bool option \<Rightarrow> conversionContext" where
  "initialContext startIndex tab firstHeadingAsTitleOption =
     \<lparr>currentIndex = startIndex, insertRequests = [], formatRequests = [], textRanges = [],
      formattingStack = [], listStack = [], paragraphRanges = [], pendingListItems = [],
      openListItemStack = [], hrRanges = [], tabId = tab, currentParagraphStart = None,
      currentHeadingLevel = None, titleConsumed = False,
      firstHeadingAsTitle =
        (case firstHeadingAsTitleOption of None \<Rightarrow> False | Some b \<Rightarrow> b)\<rparr>"

text \<open>The \<open>catch\<close> clause: a \<open>MarkdownConversionError\<close> is thrown on as it is, anything
  else is wrapped into one.\<close>

definition wrapError :: "exn \<Rightarrow> exn" where
  "wrapError e =
     (case e of
        MarkdownConversionError m \<Rightarrow> MarkdownConversionError m
      | JsError m \<Rightarrow> MarkdownConversionError (''Failed to convert markdown: '' @ m))"

text \<open>The state after the walk over the tokens, before finalization.\<close>

definition runTokens ::
  "token list \<Rightarrow> int \<Rightarrow> string option \<Rightarrow> bool option \<Rightarrow> exn + conversionContext" where
  "runTokens tokens startIndex tab opt =
     processTokens tokens (initialContext startIndex tab opt)"

text \<open>The \<open>try\<close> block of \<open>convertMarkdownToRequests\<close>, from the tokens on.\<close>

definition compileTokens ::
  "token list \<Rightarrow> int \<Rightarrow> string option \<Rightarrow> bool option \<Rightarrow> exn + request list" where
  "compileTokens tokens startIndex tab opt =
     (case runTokens tokens startIndex tab opt of
        Inl e \<Rightarrow> Inl (wrapError e)
      | Inr ctx \<Rightarrow>
          (let ctx = finalizeFormatting ctx
           in Inr (insertRequests ctx @ formatRequests ctx)))"

text \<open>\<open>convertMarkdownToRequests\<close>; the markdown-it parser is a parameter.\<close>

definition convertMarkdownToRequests ::
  "(string \<Rightarrow> token list) \<Rightarrow> string \<Rightarrow> int \<Rightarrow> string option \<Rightarrow> bool option
     \<Rightarrow> exn + request list" where
  "convertMarkdownToRequests parse markdown startIndex tab opt =
     (if markdown = [] \<or> length (trim markdown) = 0 then Inr []
      else compileTokens (parse markdown) startIndex tab opt)"

section \<open>Example inputs\<close>

subsection \<open>Documents and text runs\<close>

definition plainStyle :: textStyle where
  "plainStyle = \<lparr>ts_bold = False, ts_italic = False, ts_strikethrough = False,
     ts_underline = False, ts_link = None, ts_fontFamily = None\<rparr>"

definition runBoldItalic :: textRun where
  "runBoldItalic = \<lparr>run_content = Some ''x'',
     run_textStyle = Some (plainStyle\<lparr>ts_bold := True, ts_italic := True\<rparr>)\<rparr>"

definition runBoldItalicStrike :: textRun where
  "runBoldItalicStrike = \<lparr>run_content = Some ''x'',
     run_textStyle = Some (plainStyle\<lparr>ts_bold := True, ts_italic := True, ts_strikethrough := True\<rparr>)\<rparr>"

definition runAllStylesNewline :: textRun where
  "runAllStylesNewline = \<lparr>run_content = Some [newline],
     run_textStyle = Some \<lparr>ts_bold = True, ts_italic = True, ts_strikethrough = True,
       ts_underline = True, ts_link = Some (DocLink (Some ''https://example.com'')),
       ts_fontFamily = None\<rparr>\<rparr>"

definition runCodeNewline :: textRun where
  "runCodeNewline = \<lparr>run_content = Some [newline],
     run_textStyle = Some (plainStyle\<lparr>ts_fontFamily := Some ''Roboto Mono''\<rparr>)\<rparr>"

definition docBlankParagraphs :: docData where
  "docBlankParagraphs =
     \<lparr>d_body = Some \<lparr>body_content = Some
        [ParagraphElem \<lparr>p_namedStyleType = Some ''NORMAL_TEXT'', p_bullet = None,
           p_elements = Some [TextRunElement \<lparr>run_content = Some (''  '' @ [newline]),
                                               run_textStyle = None\<rparr>]\<rparr>,
         ParagraphElem \<lparr>p_namedStyleType = None, p_bullet = None, p_elements = None\<rparr>,
         OtherElem]\<rparr>,
      d_lists = None\<rparr>"

definition docNoBody :: docData where
  "docNoBody = \<lparr>d_body = None, d_lists = None\<rparr>"

subsection \<open>Code blocks, as described\<close>

text \<open>What is inserted for a line of a code block: the line, or one space for an empty
  line.\<close>

definition codeLineText :: "string \<Rightarrow> string" where
  "codeLineText line = (if line = [] then '' '' else line)"

definition codeFormatting :: formattingState where
  "codeFormatting = emptyFormatting\<lparr>fs_code := Some True\<rparr>"

text \<open>One code-style range per line, over the text inserted for the line; the next line
  starts after the line feed.\<close>

fun specCodeRanges :: "int \<Rightarrow> string list \<Rightarrow> textRange list" where
  "specCodeRanges i [] = []"
| "specCodeRanges i (line # rest) =
     \<lparr>tr_startIndex = i, tr_endIndex = i + int (length (codeLineText line)),
      tr_formatting = codeFormatting\<rparr>
     # specCodeRanges (i + int (length (codeLineText line)) + 1) rest"

text \<open>Per line, the insertion of its text and the insertion of its line feed.\<close>

fun specCodeInserts :: "int \<Rightarrow> string option \<Rightarrow> string list \<Rightarrow> request list" where
  "specCodeInserts i tab [] = []"
| "specCodeInserts i tab (line # rest) =
     [InsertText \<lparr>loc_index = i, loc_tabId = tab\<rparr> (codeLineText line),
      InsertText \<lparr>loc_index = i + int (length (codeLineText line)), loc_tabId = tab\<rparr> [newline]]
     @ specCodeInserts (i + int (length (codeLineText line)) + 1) tab rest"

definition fenceExample :: token where
  "fenceExample = Token ''fence'' ''code'' (''a'' @ [newline, newline] @ ''b'' @ [newline]) None None"

subsection \<open>Token streams\<close>

text \<open>The tokens markdown-it gives for the inputs the claims name.\<close>

definition simpleToken :: "string \<Rightarrow> string \<Rightarrow> token" where
  "simpleToken ty tg = Token ty tg [] None None"

definition textToken :: "string \<Rightarrow> token" where
  "textToken s = Token ''text'' [] s None None"

definition inlineToken :: "string \<Rightarrow> token list \<Rightarrow> token" where
  "inlineToken s cs = Token ''inline'' [] s None (Some cs)"

text \<open>A tight list item with one line of text.\<close>

definition listItemTokens :: "string \<Rightarrow> token list" where
  "listItemTokens s =
     [simpleToken ''list_item_open'' ''li'', simpleToken ''paragraph_open'' ''p'',
      inlineToken s [textToken s],
      simpleToken ''paragraph_close'' ''p'', simpleToken ''list_item_close'' ''li'']"




definition isInsertText :: "request \<Rightarrow> bool" where
  "isInsertText r = (case r of InsertText _ _ \<Rightarrow> True | _ \<Rightarrow> False)"

definition insertedText :: "request \<Rightarrow> string" where
  "insertedText r = (case r of InsertText _ t \<Rightarrow> t | _ \<Rightarrow> [])"

definition isBulletRequest :: "request \<Rightarrow> bool" where
  "isBulletRequest r = (case r of CreateParagraphBullets _ _ \<Rightarrow> True | _ \<Rightarrow> False)"

subsection \<open>The cursor\<close>

text \<open>Replaying a list of insertions from a cursor: each request has to be an
  \<open>insertText\<close> of a non-empty text located at the cursor, and moves the cursor on by the
  length of its text. The result is the cursor after the last one.\<close>

fun replayInserts :: "int \<Rightarrow> request list \<Rightarrow> int option" where
  "replayInserts c [] = Some c"
| "replayInserts c (InsertText loc t # rs) =
     (if loc_index loc = c \<and> t \<noteq> [] then replayInserts (c + int (length t)) rs else None)"
| "replayInserts c (_ # rs) = None"

text \<open>The sum of the lengths of the inserted texts.\<close>

definition insertedLength :: "request list \<Rightarrow> int" where
  "insertedLength reqs = sum_list (map (\<lambda>r. int (length (insertedText r))) reqs)"

text \<open>From one state to a later one, the insertions were only added to, and the added
  ones replay from the earlier cursor to the later cursor.\<close>

definition advances :: "conversionContext \<Rightarrow> conversionContext \<Rightarrow> bool" where
  "advances c c' =
     (take (length (insertRequests c)) (insertRequests c') = insertRequests c
      \<and> replayInserts (currentIndex c) (drop (length (insertRequests c)) (insertRequests c'))
          = Some (currentIndex c'))"


text \<open>Tokens that always leave an insertion behind: the close of a paragraph, a rule, a
  code block, a break, or an \<open>inline\<close> token with such a child.\<close>

fun insertingToken :: "token \<Rightarrow> bool" where
  "insertingToken (Token ty tg c ats ch) =
     (ty \<in> set [''paragraph_close'', ''hr'', ''fence'', ''code_block'', ''softbreak'', ''hardbreak'']
      \<or> (ty = ''inline'' \<and> (case ch of None \<Rightarrow> False | Some cs \<Rightarrow> \<exists>t\<in>set cs. insertingToken t)))"

text \<open>The markdown \<^verbatim>\<open>>\<close>, an empty block quote.\<close>

definition tokensEmptyBlockquote :: "token list" where
  "tokensEmptyBlockquote =
     [simpleToken ''blockquote_open'' ''blockquote'', simpleToken ''blockquote_close'' ''blockquote'']"

text \<open>\<open>- A\n- B\n- C\<close>\<close>

definition tokensABC :: "token list" where
  "tokensABC =
     [simpleToken ''bullet_list_open'' ''ul''] @ listItemTokens ''A'' @ listItemTokens ''B'' @
     listItemTokens ''C'' @ [simpleToken ''bullet_list_close'' ''ul'']"

subsection \<open>List items outside lists\<close>

text \<open>The number of open lists after a token, read off the token types alone: a list
  open adds one, a list close takes one away if there is one, and a \<open>list_item_open\<close> with
  no open list is the violation (\<open>None\<close>).\<close>

fun openListsAfter :: "token \<Rightarrow> nat \<Rightarrow> nat option"
  and openListsAfterAll :: "token list \<Rightarrow> nat \<Rightarrow> nat option" where
  "openListsAfter (Token ty tg c ats ch) d =
     (if ty = ''bullet_list_open'' \<or> ty = ''ordered_list_open'' then Some (d + 1)
      else if ty = ''bullet_list_close'' \<or> ty = ''ordered_list_close'' then Some (d - 1)
      else if ty = ''list_item_open'' then (if d = 0 then None else Some d)
      else if ty = ''inline'' then
        (case ch of None \<Rightarrow> Some d | Some cs \<Rightarrow> openListsAfterAll cs d)
      else Some d)"
| "openListsAfterAll [] d = Some d"
| "openListsAfterAll (t # ts) d =
     (case openListsAfter t d of None \<Rightarrow> None | Some d' \<Rightarrow> openListsAfterAll ts d')"

definition listItemOutsideList :: "token list \<Rightarrow> bool" where
  "listItemOutsideList tokens = (openListsAfterAll tokens 0 = None)"

text \<open>Every index on the stack of open list items points into \<open>pendingListItems\<close>.\<close>

definition openItemsValid :: "conversionContext \<Rightarrow> bool" where
  "openItemsValid ctx = (\<forall>i\<in>set (openListItemStack ctx). i < length (pendingListItems ctx))"

definition structuralViolation :: exn where
  "structuralViolation = MarkdownConversionError ''List item found outside of list context''"

text \<open>A list that is closed before an item opens.\<close>

definition tokensStrayItem :: "token list" where
  "tokensStrayItem =
     [simpleToken ''bullet_list_open'' ''ul'', simpleToken ''bullet_list_close'' ''ul'',
      simpleToken ''list_item_open'' ''li'']"

text \<open>A closing token with nothing to close: a formatting close with no entry of its kind
  on the formatting stack, a list close with no open list, a list-item close with no open
  item.\<close>

definition unmatchedClose :: "string \<Rightarrow> conversionContext \<Rightarrow> bool" where
  "unmatchedClose ty ctx =
     ((ty = ''strong_close'' \<and> \<not> (\<exists>s\<in>set (formattingStack ctx). hasKey KeyBold s))
      \<or> (ty = ''em_close'' \<and> \<not> (\<exists>s\<in>set (formattingStack ctx). hasKey KeyItalic s))
      \<or> (ty = ''s_close'' \<and> \<not> (\<exists>s\<in>set (formattingStack ctx). hasKey KeyStrikethrough s))
      \<or> (ty = ''link_close'' \<and> \<not> (\<exists>s\<in>set (formattingStack ctx). hasKey KeyLink s))
      \<or> ((ty = ''bullet_list_close'' \<or> ty = ''ordered_list_close'') \<and> listStack ctx = [])
      \<or> (ty = ''list_item_close'' \<and> openListItemStack ctx = []))"

subsection \<open>Task prefixes, as described\<close>



subsection \<open>Heading styles\<close>






subsection \<open>Bullet ranges, as described\<close>

text \<open>\<open>- A\n\n**X**\n\n- B\<close>: a list, a paragraph, a list.\<close>

definition tokensAXB :: "token list" where
  "tokensAXB =
     [simpleToken ''bullet_list_open'' ''ul''] @ listItemTokens ''A'' @
     [simpleToken ''bullet_list_close'' ''ul'',
      simpleToken ''paragraph_open'' ''p'',
      inlineToken ''**X**''
        [textToken [], simpleToken ''strong_open'' ''strong'', textToken ''X'',
         simpleToken ''strong_close'' ''strong'', textToken []],
      simpleToken ''paragraph_close'' ''p'',
      simpleToken ''bullet_list_open'' ''ul''] @ listItemTokens ''B'' @
     [simpleToken ''bullet_list_close'' ''ul'']"

text \<open>When a list item is merged into the previous merged range: the same preset, and a
  start at most one past the end of that range.\<close>

definition mergesInto :: "mergedListRange \<Rightarrow> pendingListItem \<Rightarrow> bool" where
  "mergesInto prev item =
     (mr_bulletPreset prev = pli_bulletPreset item
      \<and> pli_startIndex item \<le> mr_endIndex prev + 1)"

text \<open>The start offset of a bullet request, and whether its range covers an offset.\<close>

definition bulletStart :: "request \<Rightarrow> int" where
  "bulletStart r = (case r of CreateParagraphBullets rg _ \<Rightarrow> rg_startIndex rg | _ \<Rightarrow> 0)"

definition bulletCovers :: "request \<Rightarrow> int \<Rightarrow> bool" where
  "bulletCovers r i =
     (case r of CreateParagraphBullets rg _ \<Rightarrow> rg_startIndex rg \<le> i \<and> i < rg_endIndex rg
      | _ \<Rightarrow> False)"

text \<open>The markdown \<^verbatim>\<open>#\<close>, a level-1 heading with no text.\<close>

definition tokensEmptyHeading :: "token list" where
  "tokensEmptyHeading =
     [simpleToken ''heading_open'' ''h1'', inlineToken [] [],
      simpleToken ''heading_close'' ''h1'']"

text \<open>The ranges of the state that are not paragraph ranges have positive length.\<close>

definition rangesPositive :: "conversionContext \<Rightarrow> bool" where
  "rangesPositive ctx =
     ((\<forall>r\<in>set (textRanges ctx). tr_startIndex r < tr_endIndex r)
      \<and> (\<forall>h\<in>set (hrRanges ctx). hr_startIndex h < hr_endIndex h))"

text \<open>The range of a request that has one.\<close>

definition requestRange :: "request \<Rightarrow> docRange option" where
  "requestRange r =
     (case r of
        InsertText _ _ \<Rightarrow> None
      | UpdateTextStyle rg _ \<Rightarrow> Some rg
      | UpdateParagraphStyle rg _ \<Rightarrow> Some rg
      | UpdateParagraphBorder rg \<Rightarrow> Some rg
      | CreateParagraphBullets rg _ \<Rightarrow> Some rg)"

section \<open>Properties of the reverse renderer\<close>

lemma trim_no_edge_space:
  "trim s = [] \<or> (\<not> isWhiteSpace (hd (trim s)) \<and> \<not> isWhiteSpace (last (trim s)))"
proof (cases "trim s = []")
  case True then show ?thesis by simp
next
  case False
  let ?a = "dropWhile isWhiteSpace s"
  let ?b = "dropWhile isWhiteSpace (rev ?a)"
  have b: "?b \<noteq> []" using False by (simp add: trim_def)
  then have hb: "\<not> isWhiteSpace (hd ?b)" by (rule hd_dropWhile)
  have l: "last (trim s) = hd ?b" using b by (simp add: trim_def last_rev)
  have a: "?a \<noteq> []" using b by (cases "?a = []") simp_all
  then have ha: "\<not> isWhiteSpace (hd ?a)" by (rule hd_dropWhile)
  have "rev ?a = takeWhile isWhiteSpace (rev ?a) @ ?b" by simp
  then have "?a = rev ?b @ rev (takeWhile isWhiteSpace (rev ?a))"
    by (metis rev_append rev_rev_ident)
  then have "hd ?a = hd (rev ?b)" using b by (metis hd_append2 rev_is_Nil_conv)
  then have "\<not> isWhiteSpace (hd (trim s))" using ha by (simp add: trim_def)
  with l hb show ?thesis by simp
qed

lemma trim_all_space: "(\<forall>c\<in>set s. isWhiteSpace c) \<Longrightarrow> trim s = []"
proof -
  assume "\<forall>c\<in>set s. isWhiteSpace c"
  then have "dropWhile isWhiteSpace s = []" by simp
  then show ?thesis unfolding trim_def by (simp del: dropWhile_eq_Nil_conv)
qed

lemma convertElements_chars:
  "set (convertElements es reg) = (\<Union>e\<in>set es. set (convertElement e reg))"
  by (induction es) auto

text \<open>
  Claim C9. Whatever the document, the string \<open>docsJsonToMarkdown\<close> returns is empty or has
  no white space at either end; it is empty when there is no body or no body content,
  and when every block renders to white space only.
\<close>

theorem docsJsonToMarkdown_trimmed:
  "(docsJsonToMarkdown d = [] \<or>
      (\<not> isWhiteSpace (hd (docsJsonToMarkdown d)) \<and> \<not> isWhiteSpace (last (docsJsonToMarkdown d))))
   \<and> ((d_body d = None \<or> (\<exists>b. d_body d = Some b \<and> body_content b = None))
        \<longrightarrow> docsJsonToMarkdown d = [])
   \<and> (\<forall>b elems. d_body d = Some b \<and> body_content b = Some elems
         \<and> (\<forall>e\<in>set elems. \<forall>c\<in>set (convertElement e
                (case d_lists d of None \<Rightarrow> Map.empty | Some l \<Rightarrow> l)). isWhiteSpace c)
        \<longrightarrow> docsJsonToMarkdown d = [])"
proof (intro conjI)
  show "docsJsonToMarkdown d = [] \<or>
      (\<not> isWhiteSpace (hd (docsJsonToMarkdown d)) \<and> \<not> isWhiteSpace (last (docsJsonToMarkdown d)))"
    using trim_no_edge_space
    by (simp add: docsJsonToMarkdown_def Let_def split: option.splits)
  show "(d_body d = None \<or> (\<exists>b. d_body d = Some b \<and> body_content b = None))
        \<longrightarrow> docsJsonToMarkdown d = []"
    by (auto simp: docsJsonToMarkdown_def)
  show "\<forall>b elems. d_body d = Some b \<and> body_content b = Some elems
         \<and> (\<forall>e\<in>set elems. \<forall>c\<in>set (convertElement e
                (case d_lists d of None \<Rightarrow> Map.empty | Some l \<Rightarrow> l)). isWhiteSpace c)
        \<longrightarrow> docsJsonToMarkdown d = []"
  proof (intro allI impI, elim conjE)
    fix b elems
    assume b: "d_body d = Some b" and e: "body_content b = Some elems"
      and w: "\<forall>e\<in>set elems. \<forall>c\<in>set (convertElement e
                (case d_lists d of None \<Rightarrow> Map.empty | Some l \<Rightarrow> l)). isWhiteSpace c"
    let ?reg = "case d_lists d of None \<Rightarrow> Map.empty | Some l \<Rightarrow> l"
    have "\<forall>c\<in>set (convertElements elems ?reg). isWhiteSpace c"
      using w by (simp add: convertElements_chars)
    then have "trim (convertElements elems ?reg) = []" by (rule trim_all_space)
    then show "docsJsonToMarkdown d = []"
      by (simp add: docsJsonToMarkdown_def b e Let_def)
  qed
qed

theorem docsJsonToMarkdown_trimmed_witness:
  "docsJsonToMarkdown docBlankParagraphs = [] \<and> docsJsonToMarkdown docNoBody = []"
proof -
  have ws: "isWhiteSpace CHR '' ''" "isWhiteSpace newline" by (simp_all add: isWhiteSpace_def)
  have "\<forall>e\<in>set (the (body_content (the (d_body docBlankParagraphs)))).
          \<forall>c\<in>set (convertElement e
             (case d_lists docBlankParagraphs of None \<Rightarrow> Map.empty | Some l \<Rightarrow> l)). isWhiteSpace c"
    by (simp add: docBlankParagraphs_def convertElement_def convertParagraph_def Let_def
        getHeadingLevelOfParagraph_def getListInfo_def convertTextRun_def trim_def ws isDigit_def)
  then have "docsJsonToMarkdown docBlankParagraphs = []"
    using docsJsonToMarkdown_trimmed [of docBlankParagraphs]
    by (simp add: docBlankParagraphs_def)
  moreover have "docsJsonToMarkdown docNoBody = []"
    using docsJsonToMarkdown_trimmed [of docNoBody] by (simp add: docNoBody_def)
  ultimately show ?thesis by simp
qed

text \<open>
  Claim C8. A run with a text style whose text, less one trailing line feed, is not empty:
  with a monospace font family it is that text between backticks and nothing else;
  otherwise bold and italic give \<open>***text***\<close>, bold alone \<open>**text**\<close>, italic alone
  \<open>*text*\<close>, strikethrough then wraps in \<open>~~\<close>, underline without a link object wraps in
  \<open><u>\<close>, and a link URL wraps everything as \<open>[text](url)\<close>; the detached line feed is put
  back after the markers. The witness renders \<open>x\<close> bold and italic as \<open>***x***\<close> and, struck
  through as well, as \<open>~~***x***~~\<close>.
\<close>

theorem convertTextRun_markers:
  assumes "run_textStyle r = Some style"
    and "text = (case run_content r of None \<Rightarrow> [] | Some c \<Rightarrow> c)"
    and "body = (if endsWithNewline text then butlast text else text)"
    and "body \<noteq> []"
  shows "(isCodeStyled style \<longrightarrow>
            convertTextRun r = ''`'' @ body @ ''`'' @ (if endsWithNewline text then [newline] else []))
       \<and> (\<not> isCodeStyled style \<longrightarrow>
            convertTextRun r =
              (let emph = (if ts_bold style \<and> ts_italic style then ''***'' @ body @ ''***''
                           else if ts_bold style then ''**'' @ body @ ''**''
                           else if ts_italic style then ''*'' @ body @ ''*''
                           else body);
                   struck = (if ts_strikethrough style then ''~~'' @ emph @ ''~~'' else emph);
                   under = (if ts_underline style \<and> ts_link style = None
                            then ''<u>'' @ struck @ ''</u>'' else struck);
                   linked = (case linkUrl style of
                               Some u \<Rightarrow> ''['' @ under @ '']('' @ u @ '')''
                             | None \<Rightarrow> under)
               in linked @ (if endsWithNewline text then [newline] else [])))"
proof -
  have t: "(case run_content r of None \<Rightarrow> [] | Some c \<Rightarrow> c) = text"
    using assms(2) by simp
  have b: "(if endsWithNewline text then butlast text else text) = body"
    using assms(3) by simp
  show ?thesis
    unfolding convertTextRun_def Let_def assms(1) t option.case b
    using assms(4) by simp
qed

theorem convertTextRun_markers_witness:
  "convertTextRun runBoldItalic = ''***x***'' \<and> convertTextRun runBoldItalicStrike = ''~~***x***~~''"
proof -
  let ?s1 = "plainStyle\<lparr>ts_bold := True, ts_italic := True\<rparr>"
  let ?s2 = "plainStyle\<lparr>ts_bold := True, ts_italic := True, ts_strikethrough := True\<rparr>"
  have b: "''x'' = (if endsWithNewline ''x'' then butlast ''x'' else ''x'')"
    by (simp add: endsWithNewline_def)
  have n: "''x'' \<noteq> []" by simp
  have s1: "run_textStyle runBoldItalic = Some ?s1"
    and t1: "''x'' = (case run_content runBoldItalic of None \<Rightarrow> [] | Some c \<Rightarrow> c)"
    by (simp_all add: runBoldItalic_def)
  have s2: "run_textStyle runBoldItalicStrike = Some ?s2"
    and t2: "''x'' = (case run_content runBoldItalicStrike of None \<Rightarrow> [] | Some c \<Rightarrow> c)"
    by (simp_all add: runBoldItalicStrike_def)
  have nc1: "\<not> isCodeStyled ?s1" and nc2: "\<not> isCodeStyled ?s2"
    by (simp_all add: isCodeStyled_def plainStyle_def)
  have l1: "linkUrl ?s1 = None" and l2: "linkUrl ?s2 = None"
    by (simp_all add: linkUrl_def plainStyle_def)
  have e: "\<not> endsWithNewline ''x''" by (simp add: endsWithNewline_def)
  from convertTextRun_markers [OF s1 t1 b n] nc1
  have "convertTextRun runBoldItalic = ''***x***''"
    by (simp add: l1 e Let_def) (simp add: plainStyle_def)
  moreover from convertTextRun_markers [OF s2 t2 b n] nc2
  have "convertTextRun runBoldItalicStrike = ''~~***x***~~''"
    by (simp add: l2 e Let_def) (simp add: plainStyle_def)
  ultimately show ?thesis by simp
qed

text \<open>
  Claim C10. A run whose content is empty or a single line feed is returned as it is,
  whatever its style: bold, italic, strikethrough, underline, link or a monospace font.
\<close>

theorem convertTextRun_empty_unchanged:
  "text = (case run_content r of None \<Rightarrow> [] | Some c \<Rightarrow> c) \<Longrightarrow> text = [] \<or> text = [newline]
   \<Longrightarrow> convertTextRun r = text"
  by (auto simp: convertTextRun_def Let_def endsWithNewline_def split: option.splits)

theorem convertTextRun_empty_unchanged_witness:
  "convertTextRun runAllStylesNewline = [newline] \<and> convertTextRun runCodeNewline = [newline]"
  using convertTextRun_empty_unchanged [of "[newline]" runAllStylesNewline]
    convertTextRun_empty_unchanged [of "[newline]" runCodeNewline]
  by (simp add: runAllStylesNewline_def runCodeNewline_def)

section \<open>Properties of the forward compiler\<close>

subsection \<open>Code blocks\<close>

lemma insertText_fields [simp]:
  "insertRequests (insertText t ctx) =
     insertRequests ctx @ [InsertText \<lparr>loc_index = currentIndex ctx, loc_tabId = truthyTab (tabId ctx)\<rparr> t]"
  "currentIndex (insertText t ctx) = currentIndex ctx + int (length t)"
  "formatRequests (insertText t ctx) = formatRequests ctx"
  "textRanges (insertText t ctx) = textRanges ctx"
  "formattingStack (insertText t ctx) = formattingStack ctx"
  "listStack (insertText t ctx) = listStack ctx"
  "paragraphRanges (insertText t ctx) = paragraphRanges ctx"
  "pendingListItems (insertText t ctx) = pendingListItems ctx"
  "openListItemStack (insertText t ctx) = openListItemStack ctx"
  "hrRanges (insertText t ctx) = hrRanges ctx"
  "tabId (insertText t ctx) = tabId ctx"
  "currentParagraphStart (insertText t ctx) = currentParagraphStart ctx"
  "currentHeadingLevel (insertText t ctx) = currentHeadingLevel ctx"
  "titleConsumed (insertText t ctx) = titleConsumed ctx"
  "firstHeadingAsTitle (insertText t ctx) = firstHeadingAsTitle ctx"
  by (simp_all add: insertText_def)

lemma codeBlockLines_effect:
  "insertRequests (codeBlockLines ls ctx) =
     insertRequests ctx @ specCodeInserts (currentIndex ctx) (truthyTab (tabId ctx)) ls
   \<and> textRanges (codeBlockLines ls ctx) = textRanges ctx @ specCodeRanges (currentIndex ctx) ls
   \<and> currentIndex (codeBlockLines ls ctx) =
       currentIndex ctx + sum_list (map (\<lambda>l. int (length (codeLineText l)) + 1) ls)
   \<and> tabId (codeBlockLines ls ctx) = tabId ctx"
proof (induction ls arbitrary: ctx)
  case Nil
  then show ?case by simp
next
  case (Cons line rest)
  show ?case
    by (cases "line = []") (simp_all add: Let_def Cons.IH codeLineText_def codeFormatting_def)
qed

lemma codeBlockLines_last:
  "ls \<noteq> [] \<Longrightarrow> lastInsertText (codeBlockLines ls ctx) = Some [newline]"
proof (induction ls arbitrary: ctx)
  case Nil
  then show ?case by simp
next
  case (Cons line rest)
  show ?case
  proof (cases "rest = []")
    case True
    then show ?thesis by (simp add: Let_def lastInsertText_def)
  next
    case False
    then show ?thesis using Cons.IH by (simp add: Let_def)
  qed
qed

lemma splitLines_nonempty [simp]: "splitLines s \<noteq> []"
  by (induction s) (auto split: list.splits)

lemma splitLines_join: "concat (map (\<lambda>l. l @ [newline]) (splitLines s)) = s @ [newline]"
  by (induction s) (auto split: list.splits)

lemma splitLines_no_newline: "l \<in> set (splitLines s) \<Longrightarrow> newline \<notin> set l"
  by (induction s arbitrary: l) (auto split: list.splits if_splits)

lemma specCodeRanges_length: "length (specCodeRanges i ls) = length ls"
  by (induction ls arbitrary: i) auto

lemma specCodeRanges_nonempty:
  "r \<in> set (specCodeRanges i ls) \<Longrightarrow> tr_startIndex r < tr_endIndex r \<and> tr_formatting r = codeFormatting"
  by (induction ls arbitrary: i) (auto simp: codeLineText_def)

text \<open>
  Claim C6. For a fence or code_block token, the content less one trailing line feed is
  split at its line feeds (the pieces, each followed by a line feed, give it back); every
  line adds the insertion of its text, one space for an empty line, then the insertion of
  its line feed, and one code-style range over exactly the inserted text, so of positive
  length; one more line feed after the block closes it with a blank line.
\<close>

theorem handleCodeBlockToken_lines:
  assumes "normalized = (if endsWithNewline (content tok) then butlast (content tok) else content tok)"
    and "lines = splitLines normalized"
    and "ctx' = handleCodeBlockToken tok ctx"
  shows "concat (map (\<lambda>l. l @ [newline]) lines) = normalized @ [newline]
    \<and> (\<forall>l\<in>set lines. newline \<notin> set l)
    \<and> insertRequests ctx' =
        insertRequests ctx @ specCodeInserts (currentIndex ctx) (truthyTab (tabId ctx)) lines @
        [InsertText \<lparr>loc_index = currentIndex ctx' - 1, loc_tabId = truthyTab (tabId ctx)\<rparr> [newline]]
    \<and> textRanges ctx' = textRanges ctx @ specCodeRanges (currentIndex ctx) lines
    \<and> length (specCodeRanges (currentIndex ctx) lines) = length lines
    \<and> (\<forall>r\<in>set (specCodeRanges (currentIndex ctx) lines).
          tr_startIndex r < tr_endIndex r \<and> tr_formatting r = codeFormatting)
    \<and> currentIndex ctx' =
        currentIndex ctx + sum_list (map (\<lambda>l. int (length (codeLineText l)) + 1) lines) + 1"
proof -
  have lines: "(if length normalized > 0 then splitLines normalized else [[]]) = lines"
    using assms(2) by (cases normalized) simp_all
  let ?c = "codeBlockLines lines ctx"
  have ne: "lines \<noteq> []" using assms(2) by simp
  have "lastInsertText ?c = Some [newline]" using ne by (rule codeBlockLines_last)
  then have nd: "\<not> lastInsertEndsWithDoubleNewline ?c"
    by (simp add: lastInsertEndsWithDoubleNewline_def endsWithDoubleNewline_def)
  have "handleCodeBlockToken tok ctx =
          (if \<not> lastInsertEndsWithDoubleNewline ?c then insertText [newline] ?c else ?c)"
    unfolding handleCodeBlockToken_def Let_def assms(1)[symmetric] lines ..
  then have c': "ctx' = insertText [newline] ?c"
    using assms(3) nd by simp
  show ?thesis
    using codeBlockLines_effect [of lines ctx] specCodeRanges_nonempty [of _ "currentIndex ctx" lines]
      splitLines_no_newline [of _ normalized]
    by (auto simp: c' specCodeRanges_length assms(2) splitLines_join)
qed

theorem handleCodeBlockToken_lines_witness:
  "insertRequests (handleCodeBlockToken fenceExample (initialContext 1 None None)) =
     [InsertText \<lparr>loc_index = 1, loc_tabId = None\<rparr> ''a'',
      InsertText \<lparr>loc_index = 2, loc_tabId = None\<rparr> [newline],
      InsertText \<lparr>loc_index = 3, loc_tabId = None\<rparr> '' '',
      InsertText \<lparr>loc_index = 4, loc_tabId = None\<rparr> [newline],
      InsertText \<lparr>loc_index = 5, loc_tabId = None\<rparr> ''b'',
      InsertText \<lparr>loc_index = 6, loc_tabId = None\<rparr> [newline],
      InsertText \<lparr>loc_index = 7, loc_tabId = None\<rparr> [newline]]
   \<and> textRanges (handleCodeBlockToken fenceExample (initialContext 1 None None)) =
     [\<lparr>tr_startIndex = 1, tr_endIndex = 2, tr_formatting = codeFormatting\<rparr>,
      \<lparr>tr_startIndex = 3, tr_endIndex = 4, tr_formatting = codeFormatting\<rparr>,
      \<lparr>tr_startIndex = 5, tr_endIndex = 6, tr_formatting = codeFormatting\<rparr>]"
proof -
  let ?n = "''a'' @ [newline, newline] @ ''b''"
  have n: "?n = (if endsWithNewline (content fenceExample) then butlast (content fenceExample)
                 else content fenceExample)"
    by (simp add: fenceExample_def endsWithNewline_def)
  have l: "[''a'', [], ''b''] = splitLines ?n" by simp
  have c: "currentIndex (handleCodeBlockToken fenceExample (initialContext 1 None None)) = 8"
    using handleCodeBlockToken_lines [OF n l refl, of "initialContext 1 None None"]
    by (simp add: initialContext_def codeLineText_def)
  show ?thesis
    using handleCodeBlockToken_lines [OF n l refl, of "initialContext 1 None None"]
    by (simp add: c) (simp add: initialContext_def codeLineText_def truthyTab_def)
qed

subsection \<open>Task lists\<close>

lemma getCurrentOpenListItem_SomeD:
  "getCurrentOpenListItem ctx = Some item \<Longrightarrow>
     openListItemStack ctx \<noteq> [] \<and> last (openListItemStack ctx) < length (pendingListItems ctx)
     \<and> item = pendingListItems ctx ! last (openListItemStack ctx)"
  by (auto simp: getCurrentOpenListItem_def Let_def split: if_splits)


lemma updateCurrentOpenListItem_fields [simp]:
  "currentIndex (updateCurrentOpenListItem f ctx) = currentIndex ctx"
  "insertRequests (updateCurrentOpenListItem f ctx) = insertRequests ctx"
  "formatRequests (updateCurrentOpenListItem f ctx) = formatRequests ctx"
  "textRanges (updateCurrentOpenListItem f ctx) = textRanges ctx"
  "formattingStack (updateCurrentOpenListItem f ctx) = formattingStack ctx"
  "listStack (updateCurrentOpenListItem f ctx) = listStack ctx"
  "paragraphRanges (updateCurrentOpenListItem f ctx) = paragraphRanges ctx"
  "openListItemStack (updateCurrentOpenListItem f ctx) = openListItemStack ctx"
  "hrRanges (updateCurrentOpenListItem f ctx) = hrRanges ctx"
  "tabId (updateCurrentOpenListItem f ctx) = tabId ctx"
  "currentParagraphStart (updateCurrentOpenListItem f ctx) = currentParagraphStart ctx"
  "currentHeadingLevel (updateCurrentOpenListItem f ctx) = currentHeadingLevel ctx"
  "titleConsumed (updateCurrentOpenListItem f ctx) = titleConsumed ctx"
  "firstHeadingAsTitle (updateCurrentOpenListItem f ctx) = firstHeadingAsTitle ctx"
  "length (pendingListItems (updateCurrentOpenListItem f ctx)) = length (pendingListItems ctx)"
  by (simp_all add: updateCurrentOpenListItem_def Let_def)

lemma getCurrentOpenListItem_insertText [simp]:
  "getCurrentOpenListItem (insertText t ctx) = getCurrentOpenListItem ctx"
  by (simp add: getCurrentOpenListItem_def Let_def)

lemma getCurrentOpenListItem_textRanges [simp]:
  "getCurrentOpenListItem (ctx\<lparr>textRanges := rs\<rparr>) = getCurrentOpenListItem ctx"
  by (simp add: getCurrentOpenListItem_def Let_def)

lemma matchTaskPrefix_SomeD:
  assumes "matchTaskPrefix s = Some n"
  shows "\<exists>b ws rest. s = CHR ''['' # b # CHR '']'' # ws @ rest
           \<and> (b = CHR '' '' \<or> b = CHR ''x'' \<or> b = CHR ''X'')
           \<and> ws \<noteq> [] \<and> (\<forall>c\<in>set ws. isWhiteSpace c)
           \<and> (rest = [] \<or> \<not> isWhiteSpace (hd rest))
           \<and> n = 3 + length ws \<and> drop n s = rest"
proof -
  from assms obtain a b c r where s: "s = a # b # c # r"
    by (auto simp: matchTaskPrefix_def split: list.splits)
  from assms s have a: "a = CHR ''[''" and c: "c = CHR '']''"
    and b: "b = CHR '' '' \<or> b = CHR ''x'' \<or> b = CHR ''X''"
    and r: "r \<noteq> []" "isWhiteSpace (hd r)"
    and n: "n = 3 + length (takeWhile isWhiteSpace r)"
    by (auto simp: matchTaskPrefix_def split: if_splits)
  let ?ws = "takeWhile isWhiteSpace r" and ?rest = "dropWhile isWhiteSpace r"
  have ws: "?ws \<noteq> []" using r by (cases r) auto
  have "\<forall>c\<in>set ?ws. isWhiteSpace c" by (auto dest: set_takeWhileD)
  moreover have "?rest = [] \<or> \<not> isWhiteSpace (hd ?rest)" using hd_dropWhile by blast
  moreover have "drop n s = ?rest" by (simp add: s n dropWhile_eq_drop numeral_3_eq_3)
  moreover have "s = CHR ''['' # b # CHR '']'' # ?ws @ ?rest" by (simp add: s a c)
  ultimately show ?thesis using b ws n by blast
qed









subsection \<open>Invariants of the token walk\<close>

text \<open>A property of the state that every handler keeps is kept by \<open>processToken\<close> and by
  the walk over a token list.\<close>

lemma processToken_invariant:
  assumes HO: "\<And>tok c. P c \<Longrightarrow> P (handleHeadingOpen tok c)"
    and HC: "\<And>c. P c \<Longrightarrow> P (handleHeadingClose c)"
    and PO: "\<And>c. P c \<Longrightarrow> P (handleParagraphOpen c)"
    and PC: "\<And>c. P c \<Longrightarrow> P (handleParagraphClose c)"
    and TT: "\<And>tok c. P c \<Longrightarrow> P (handleTextToken tok c)"
    and CI: "\<And>tok c. P c \<Longrightarrow> P (handleCodeInlineToken tok c)"
    and PF: "\<And>st c. P c \<Longrightarrow> P (pushFormatting st c)"
    and PP: "\<And>k c. P c \<Longrightarrow> P (popFormatting c k)"
    and LS: "\<And>ls c. P c \<Longrightarrow> P (c\<lparr>listStack := ls\<rparr>)"
    and LO: "\<And>c. P c \<Longrightarrow> (case handleListItemOpen c of Inl e \<Rightarrow> True | Inr c' \<Rightarrow> P c')"
    and LC: "\<And>c. P c \<Longrightarrow> (case handleListItemClose c of Inl e \<Rightarrow> True | Inr c' \<Rightarrow> P c')"
    and SB: "\<And>c. P c \<Longrightarrow> P (insertText '' '' c)"
    and HB: "\<And>c. P c \<Longrightarrow> P (insertText [newline] c)"
    and CB: "\<And>tok c. P c \<Longrightarrow> P (handleCodeBlockToken tok c)"
    and HR: "\<And>c. P c \<Longrightarrow> P (handleHorizontalRule c)"
  shows "processToken t ctx = Inr ctx' \<Longrightarrow> P ctx \<Longrightarrow> P ctx'"
    and "processTokens ts ctx = Inr ctx' \<Longrightarrow> P ctx \<Longrightarrow> P ctx'"
proof (induction t ctx and ts ctx arbitrary: ctx' and ctx' rule: processToken_processTokens.induct)
  case (1 ty tg c ats ch ctx)
  note hs = HO HC PO PC TT CI PF PP LS SB HB CB HR
  show ?case
  proof (cases "ty = ''inline''")
    case True
    show ?thesis
    proof (cases ch)
      case None
      then show ?thesis using "1.prems" True by simp
    next
      case (Some cs)
      have "processTokens cs ctx = Inr ctx'" using "1.prems"(1) True Some by simp
      then show ?thesis using "1.IH" [of cs ctx'] True Some "1.prems"(2) by simp
    qed
  next
    case False
    have "case processToken (Token ty tg c ats ch) ctx of Inl e \<Rightarrow> True | Inr c' \<Rightarrow> P c'"
      using False "1.prems"(2) 
      by (simp add: hs LO LC split: option.split)
    then show ?thesis using "1.prems"(1) by simp
  qed
next
  case (2 ctx)
  then show ?case by simp
next
  case (3 t ts ctx)
  then show ?case by (auto split: sum.splits)
qed


subsection \<open>What the handlers leave alone\<close>

lemma pushFormatting_fields [simp]:
  "currentIndex (pushFormatting st ctx) = currentIndex ctx"
  "insertRequests (pushFormatting st ctx) = insertRequests ctx"
  "formatRequests (pushFormatting st ctx) = formatRequests ctx"
  "textRanges (pushFormatting st ctx) = textRanges ctx"
  "formattingStack (pushFormatting st ctx) = formattingStack ctx @ [st]"
  "listStack (pushFormatting st ctx) = listStack ctx"
  "paragraphRanges (pushFormatting st ctx) = paragraphRanges ctx"
  "pendingListItems (pushFormatting st ctx) = pendingListItems ctx"
  "openListItemStack (pushFormatting st ctx) = openListItemStack ctx"
  "hrRanges (pushFormatting st ctx) = hrRanges ctx"
  "tabId (pushFormatting st ctx) = tabId ctx"
  "currentParagraphStart (pushFormatting st ctx) = currentParagraphStart ctx"
  "currentHeadingLevel (pushFormatting st ctx) = currentHeadingLevel ctx"
  "titleConsumed (pushFormatting st ctx) = titleConsumed ctx"
  "firstHeadingAsTitle (pushFormatting st ctx) = firstHeadingAsTitle ctx"
  by (simp_all add: pushFormatting_def)

lemma popFormatting_fields [simp]:
  "currentIndex (popFormatting ctx k) = currentIndex ctx"
  "insertRequests (popFormatting ctx k) = insertRequests ctx"
  "formatRequests (popFormatting ctx k) = formatRequests ctx"
  "textRanges (popFormatting ctx k) = textRanges ctx"
  "listStack (popFormatting ctx k) = listStack ctx"
  "paragraphRanges (popFormatting ctx k) = paragraphRanges ctx"
  "pendingListItems (popFormatting ctx k) = pendingListItems ctx"
  "openListItemStack (popFormatting ctx k) = openListItemStack ctx"
  "hrRanges (popFormatting ctx k) = hrRanges ctx"
  "tabId (popFormatting ctx k) = tabId ctx"
  "currentParagraphStart (popFormatting ctx k) = currentParagraphStart ctx"
  "currentHeadingLevel (popFormatting ctx k) = currentHeadingLevel ctx"
  "titleConsumed (popFormatting ctx k) = titleConsumed ctx"
  "firstHeadingAsTitle (popFormatting ctx k) = firstHeadingAsTitle ctx"
  by (simp_all add: popFormatting_def)

lemma handleHeadingOpen_fields [simp]:
  "currentIndex (handleHeadingOpen tok ctx) = currentIndex ctx"
  "insertRequests (handleHeadingOpen tok ctx) = insertRequests ctx"
  "formatRequests (handleHeadingOpen tok ctx) = formatRequests ctx"
  "textRanges (handleHeadingOpen tok ctx) = textRanges ctx"
  "formattingStack (handleHeadingOpen tok ctx) = formattingStack ctx"
  "listStack (handleHeadingOpen tok ctx) = listStack ctx"
  "paragraphRanges (handleHeadingOpen tok ctx) = paragraphRanges ctx"
  "pendingListItems (handleHeadingOpen tok ctx) = pendingListItems ctx"
  "openListItemStack (handleHeadingOpen tok ctx) = openListItemStack ctx"
  "hrRanges (handleHeadingOpen tok ctx) = hrRanges ctx"
  "tabId (handleHeadingOpen tok ctx) = tabId ctx"
  "titleConsumed (handleHeadingOpen tok ctx) = titleConsumed ctx"
  "firstHeadingAsTitle (handleHeadingOpen tok ctx) = firstHeadingAsTitle ctx"
  by (simp_all add: handleHeadingOpen_def split: option.split)

lemma handleHeadingClose_fields [simp]:
  "formatRequests (handleHeadingClose ctx) = formatRequests ctx"
  "textRanges (handleHeadingClose ctx) = textRanges ctx"
  "formattingStack (handleHeadingClose ctx) = formattingStack ctx"
  "listStack (handleHeadingClose ctx) = listStack ctx"
  "pendingListItems (handleHeadingClose ctx) = pendingListItems ctx"
  "openListItemStack (handleHeadingClose ctx) = openListItemStack ctx"
  "hrRanges (handleHeadingClose ctx) = hrRanges ctx"
  "tabId (handleHeadingClose ctx) = tabId ctx"
  "firstHeadingAsTitle (handleHeadingClose ctx) = firstHeadingAsTitle ctx"
  by (simp_all add: handleHeadingClose_def Let_def split: option.split)

lemma handleHorizontalRule_fields [simp]:
  "formatRequests (handleHorizontalRule ctx) = formatRequests ctx"
  "textRanges (handleHorizontalRule ctx) = textRanges ctx"
  "formattingStack (handleHorizontalRule ctx) = formattingStack ctx"
  "listStack (handleHorizontalRule ctx) = listStack ctx"
  "paragraphRanges (handleHorizontalRule ctx) = paragraphRanges ctx"
  "pendingListItems (handleHorizontalRule ctx) = pendingListItems ctx"
  "openListItemStack (handleHorizontalRule ctx) = openListItemStack ctx"
  "tabId (handleHorizontalRule ctx) = tabId ctx"
  "currentParagraphStart (handleHorizontalRule ctx) = currentParagraphStart ctx"
  "currentHeadingLevel (handleHorizontalRule ctx) = currentHeadingLevel ctx"
  "titleConsumed (handleHorizontalRule ctx) = titleConsumed ctx"
  "firstHeadingAsTitle (handleHorizontalRule ctx) = firstHeadingAsTitle ctx"
  by (simp_all add: handleHorizontalRule_def Let_def)

lemma handleParagraphOpen_fields [simp]:
  "currentIndex (handleParagraphOpen ctx) = currentIndex ctx"
  "insertRequests (handleParagraphOpen ctx) = insertRequests ctx"
  "formatRequests (handleParagraphOpen ctx) = formatRequests ctx"
  "textRanges (handleParagraphOpen ctx) = textRanges ctx"
  "formattingStack (handleParagraphOpen ctx) = formattingStack ctx"
  "listStack (handleParagraphOpen ctx) = listStack ctx"
  "paragraphRanges (handleParagraphOpen ctx) = paragraphRanges ctx"
  "pendingListItems (handleParagraphOpen ctx) = pendingListItems ctx"
  "openListItemStack (handleParagraphOpen ctx) = openListItemStack ctx"
  "hrRanges (handleParagraphOpen ctx) = hrRanges ctx"
  "tabId (handleParagraphOpen ctx) = tabId ctx"
  "currentHeadingLevel (handleParagraphOpen ctx) = currentHeadingLevel ctx"
  "titleConsumed (handleParagraphOpen ctx) = titleConsumed ctx"
  "firstHeadingAsTitle (handleParagraphOpen ctx) = firstHeadingAsTitle ctx"
  by (simp_all add: handleParagraphOpen_def)

lemma handleParagraphClose_fields [simp]:
  "formatRequests (handleParagraphClose ctx) = formatRequests ctx"
  "textRanges (handleParagraphClose ctx) = textRanges ctx"
  "formattingStack (handleParagraphClose ctx) = formattingStack ctx"
  "listStack (handleParagraphClose ctx) = listStack ctx"
  "paragraphRanges (handleParagraphClose ctx) = paragraphRanges ctx"
  "length (pendingListItems (handleParagraphClose ctx)) = length (pendingListItems ctx)"
  "openListItemStack (handleParagraphClose ctx) = openListItemStack ctx"
  "hrRanges (handleParagraphClose ctx) = hrRanges ctx"
  "tabId (handleParagraphClose ctx) = tabId ctx"
  "currentHeadingLevel (handleParagraphClose ctx) = currentHeadingLevel ctx"
  "titleConsumed (handleParagraphClose ctx) = titleConsumed ctx"
  "firstHeadingAsTitle (handleParagraphClose ctx) = firstHeadingAsTitle ctx"
  by (simp_all add: handleParagraphClose_def Let_def split: option.split)

lemma handleTextToken_fields [simp]:
  "formatRequests (handleTextToken tok ctx) = formatRequests ctx"
  "formattingStack (handleTextToken tok ctx) = formattingStack ctx"
  "listStack (handleTextToken tok ctx) = listStack ctx"
  "paragraphRanges (handleTextToken tok ctx) = paragraphRanges ctx"
  "length (pendingListItems (handleTextToken tok ctx)) = length (pendingListItems ctx)"
  "openListItemStack (handleTextToken tok ctx) = openListItemStack ctx"
  "hrRanges (handleTextToken tok ctx) = hrRanges ctx"
  "tabId (handleTextToken tok ctx) = tabId ctx"
  "currentParagraphStart (handleTextToken tok ctx) = currentParagraphStart ctx"
  "currentHeadingLevel (handleTextToken tok ctx) = currentHeadingLevel ctx"
  "titleConsumed (handleTextToken tok ctx) = titleConsumed ctx"
  "firstHeadingAsTitle (handleTextToken tok ctx) = firstHeadingAsTitle ctx"
  by (simp_all add: handleTextToken_def Let_def split: option.split prod.split)

lemma handleCodeInlineToken_fields [simp]:
  "formatRequests (handleCodeInlineToken tok ctx) = formatRequests ctx"
  "listStack (handleCodeInlineToken tok ctx) = listStack ctx"
  "paragraphRanges (handleCodeInlineToken tok ctx) = paragraphRanges ctx"
  "length (pendingListItems (handleCodeInlineToken tok ctx)) = length (pendingListItems ctx)"
  "openListItemStack (handleCodeInlineToken tok ctx) = openListItemStack ctx"
  "hrRanges (handleCodeInlineToken tok ctx) = hrRanges ctx"
  "tabId (handleCodeInlineToken tok ctx) = tabId ctx"
  "currentParagraphStart (handleCodeInlineToken tok ctx) = currentParagraphStart ctx"
  "currentHeadingLevel (handleCodeInlineToken tok ctx) = currentHeadingLevel ctx"
  "titleConsumed (handleCodeInlineToken tok ctx) = titleConsumed ctx"
  "firstHeadingAsTitle (handleCodeInlineToken tok ctx) = firstHeadingAsTitle ctx"
  by (simp_all add: handleCodeInlineToken_def)

lemma codeBlockLines_fields [simp]:
  "formatRequests (codeBlockLines ls ctx) = formatRequests ctx"
  "formattingStack (codeBlockLines ls ctx) = formattingStack ctx"
  "listStack (codeBlockLines ls ctx) = listStack ctx"
  "paragraphRanges (codeBlockLines ls ctx) = paragraphRanges ctx"
  "pendingListItems (codeBlockLines ls ctx) = pendingListItems ctx"
  "openListItemStack (codeBlockLines ls ctx) = openListItemStack ctx"
  "hrRanges (codeBlockLines ls ctx) = hrRanges ctx"
  "tabId (codeBlockLines ls ctx) = tabId ctx"
  "currentParagraphStart (codeBlockLines ls ctx) = currentParagraphStart ctx"
  "currentHeadingLevel (codeBlockLines ls ctx) = currentHeadingLevel ctx"
  "titleConsumed (codeBlockLines ls ctx) = titleConsumed ctx"
  "firstHeadingAsTitle (codeBlockLines ls ctx) = firstHeadingAsTitle ctx"
  by (induction ls arbitrary: ctx; simp add: Let_def)+

lemma handleCodeBlockToken_fields [simp]:
  "formatRequests (handleCodeBlockToken tok ctx) = formatRequests ctx"
  "formattingStack (handleCodeBlockToken tok ctx) = formattingStack ctx"
  "listStack (handleCodeBlockToken tok ctx) = listStack ctx"
  "paragraphRanges (handleCodeBlockToken tok ctx) = paragraphRanges ctx"
  "pendingListItems (handleCodeBlockToken tok ctx) = pendingListItems ctx"
  "openListItemStack (handleCodeBlockToken tok ctx) = openListItemStack ctx"
  "hrRanges (handleCodeBlockToken tok ctx) = hrRanges ctx"
  "tabId (handleCodeBlockToken tok ctx) = tabId ctx"
  "currentParagraphStart (handleCodeBlockToken tok ctx) = currentParagraphStart ctx"
  "currentHeadingLevel (handleCodeBlockToken tok ctx) = currentHeadingLevel ctx"
  "titleConsumed (handleCodeBlockToken tok ctx) = titleConsumed ctx"
  "firstHeadingAsTitle (handleCodeBlockToken tok ctx) = firstHeadingAsTitle ctx"
  by (simp_all add: handleCodeBlockToken_def Let_def)

lemma handleListItemOpen_fields:
  assumes "handleListItemOpen ctx = Inr ctx'"
  shows "formatRequests ctx' = formatRequests ctx"
    and "textRanges ctx' = textRanges ctx"
    and "formattingStack ctx' = formattingStack ctx"
    and "listStack ctx' = listStack ctx"
    and "paragraphRanges ctx' = paragraphRanges ctx"
    and "length (pendingListItems ctx') = Suc (length (pendingListItems ctx))"
    and "openListItemStack ctx' = openListItemStack ctx @ [length (pendingListItems ctx)]"
    and "hrRanges ctx' = hrRanges ctx"
    and "tabId ctx' = tabId ctx"
    and "currentParagraphStart ctx' = currentParagraphStart ctx"
    and "currentHeadingLevel ctx' = currentHeadingLevel ctx"
    and "titleConsumed ctx' = titleConsumed ctx"
    and "firstHeadingAsTitle ctx' = firstHeadingAsTitle ctx"
    and "listStack ctx \<noteq> []"
  using assms by (auto simp: handleListItemOpen_def Let_def split: if_splits)

lemma handleListItemClose_fields:
  assumes "handleListItemClose ctx = Inr ctx'"
  shows "formatRequests ctx' = formatRequests ctx"
    and "textRanges ctx' = textRanges ctx"
    and "formattingStack ctx' = formattingStack ctx"
    and "listStack ctx' = listStack ctx"
    and "paragraphRanges ctx' = paragraphRanges ctx"
    and "length (pendingListItems ctx') = length (pendingListItems ctx)"
    and "openListItemStack ctx' = butlast (openListItemStack ctx)"
    and "hrRanges ctx' = hrRanges ctx"
    and "tabId ctx' = tabId ctx"
    and "currentParagraphStart ctx' = currentParagraphStart ctx"
    and "currentHeadingLevel ctx' = currentHeadingLevel ctx"
    and "titleConsumed ctx' = titleConsumed ctx"
    and "firstHeadingAsTitle ctx' = firstHeadingAsTitle ctx"
  using assms by (auto simp: handleListItemClose_def Let_def split: if_splits)

subsection \<open>The cursor moves by insertion only\<close>

lemma replayInserts_append:
  "replayInserts c (xs @ ys) =
     (case replayInserts c xs of None \<Rightarrow> None | Some c' \<Rightarrow> replayInserts c' ys)"
  by (induction c xs rule: replayInserts.induct) auto

lemma replayInserts_sum:
  "replayInserts c xs = Some c' \<Longrightarrow>
     c' = c + insertedLength xs \<and> c \<le> c' \<and> (xs \<noteq> [] \<longleftrightarrow> c < c')
     \<and> (\<forall>r\<in>set xs. isInsertText r \<and> insertedText r \<noteq> [])"
proof (induction c xs arbitrary: c' rule: replayInserts.induct)
  case (1 c)
  then show ?case by (simp add: insertedLength_def)
next
  case (2 c loc t rs)
  from "2.prems" have a: "loc_index loc = c" "t \<noteq> []"
    and r: "replayInserts (c + int (length t)) rs = Some c'"
    by (auto split: if_splits)
  from "2.IH" [OF _ r] a
  have "c' = c + int (length t) + insertedLength rs" "c + int (length t) \<le> c'"
    "\<forall>r\<in>set rs. isInsertText r \<and> insertedText r \<noteq> []"
    by auto
  moreover have "0 < int (length t)" using a by simp
  moreover have "insertedLength (InsertText loc t # rs) = int (length t) + insertedLength rs"
    by (simp add: insertedLength_def insertedText_def)
  moreover have "isInsertText (InsertText loc t)" "insertedText (InsertText loc t) \<noteq> []"
    using a by (simp_all add: insertedText_def isInsertText_def)
  ultimately show ?case using a by (simp del: of_nat_0_less_iff)
qed simp_all

lemma advances_iff:
  "advances c c' \<longleftrightarrow>
     (\<exists>new. insertRequests c' = insertRequests c @ new
           \<and> replayInserts (currentIndex c) new = Some (currentIndex c'))"
proof
  assume "advances c c'"
  then have "insertRequests c' =
      insertRequests c @ drop (length (insertRequests c)) (insertRequests c')"
    and "replayInserts (currentIndex c) (drop (length (insertRequests c)) (insertRequests c'))
          = Some (currentIndex c')"
    by (auto simp: advances_def) (metis append_take_drop_id)
  then show "\<exists>new. insertRequests c' = insertRequests c @ new
           \<and> replayInserts (currentIndex c) new = Some (currentIndex c')"
    by blast
next
  assume "\<exists>new. insertRequests c' = insertRequests c @ new
           \<and> replayInserts (currentIndex c) new = Some (currentIndex c')"
  then show "advances c c'" by (auto simp: advances_def)
qed

lemma advances_refl [simp]: "advances c c"
  by (simp add: advances_iff)

lemma advances_trans: "advances a b \<Longrightarrow> advances b c \<Longrightarrow> advances a c"
  by (auto simp: advances_iff replayInserts_append)

lemma advances_insertText: "t \<noteq> [] \<Longrightarrow> advances c (insertText t c)"
  by (simp add: advances_iff)

lemma advances_same:
  "insertRequests c' = insertRequests c \<Longrightarrow> currentIndex c' = currentIndex c \<Longrightarrow> advances c c'"
  by (simp add: advances_iff)

lemma advances_then:
  "advances a b \<Longrightarrow> insertRequests c = insertRequests b \<Longrightarrow> currentIndex c = currentIndex b
     \<Longrightarrow> advances a c"
  by (simp add: advances_iff)

lemma advances_handleHeadingClose: "advances c (handleHeadingClose c)"
  by (simp add: handleHeadingClose_def Let_def advances_def split: option.split)

lemma advances_handleHorizontalRule: "advances c (handleHorizontalRule c)"
  by (simp add: handleHorizontalRule_def Let_def advances_def)

lemma advances_handleParagraphClose: "advances c (handleParagraphClose c)"
  by (simp add: handleParagraphClose_def Let_def advances_def split: option.split)

lemma advances_handleTextToken: "advances c (handleTextToken tok c)"
  by (simp add: handleTextToken_def Let_def advances_def split: option.split prod.split)

lemma advances_handleCodeInlineToken: "advances c (handleCodeInlineToken tok c)"
proof -
  let ?c1 = "pushFormatting (emptyFormatting\<lparr>fs_code := Some True\<rparr>) c"
  have "advances c ?c1" by (simp add: advances_same)
  then have "advances c (handleTextToken tok ?c1)"
    by (rule advances_trans [OF _ advances_handleTextToken])
  then show ?thesis
    by (simp add: handleCodeInlineToken_def advances_then)
qed

lemma advances_codeBlockLines: "advances c (codeBlockLines ls c)"
proof (induction ls arbitrary: c)
  case Nil
  then show ?case by simp
next
  case (Cons line rest)
  let ?c1 = "if length line > 0 then insertText line c else insertText '' '' c"
  let ?c2 = "?c1\<lparr>textRanges := textRanges ?c1 @
                  [\<lparr>tr_startIndex = currentIndex c, tr_endIndex = currentIndex ?c1,
                    tr_formatting = emptyFormatting\<lparr>fs_code := Some True\<rparr>\<rparr>]\<rparr>"
  let ?c3 = "insertText [newline] ?c2"
  have a: "advances c ?c3" by (simp add: advances_def)
  have e: "codeBlockLines (line # rest) c = codeBlockLines rest ?c3"
    by (simp add: Let_def)
  have "advances c (codeBlockLines rest ?c3)"
    by (rule advances_trans [OF a Cons.IH])
  then show ?case by (simp only: e)
qed

lemma advances_handleCodeBlockToken: "advances c (handleCodeBlockToken tok c)"
proof -
  have "advances c (insertText [newline] (codeBlockLines ls c))" for ls
    by (rule advances_trans [OF advances_codeBlockLines advances_insertText]) simp
  then show ?thesis
    by (simp add: handleCodeBlockToken_def Let_def advances_codeBlockLines)
qed

lemma advances_handleListItemOpen:
  "case handleListItemOpen c of Inl e \<Rightarrow> True | Inr c' \<Rightarrow> advances c c'"
  by (simp add: handleListItemOpen_def Let_def advances_def repeat_def)

lemma advances_handleListItemClose:
  "case handleListItemClose c of Inl e \<Rightarrow> True | Inr c' \<Rightarrow> advances c c'"
  by (simp add: handleListItemClose_def Let_def advances_def)




lemma advances_processToken:
  "processToken t ctx = Inr ctx' \<Longrightarrow> advances ctx ctx'"
proof -
  assume r: "processToken t ctx = Inr ctx'"
  have "advances ctx ctx" by simp
  with r show ?thesis
  proof (rule processToken_invariant(1) [where P = "advances ctx", rotated -2])
    fix c assume a: "advances ctx c"
    show "advances ctx (handleHeadingClose c)"
      by (rule advances_trans [OF a advances_handleHeadingClose])
    show "advances ctx (handleParagraphClose c)"
      by (rule advances_trans [OF a advances_handleParagraphClose])
    show "advances ctx (handleParagraphOpen c)" using a by (simp add: advances_then)
    show "advances ctx (insertText '' '' c)"
      by (rule advances_trans [OF a advances_insertText]) simp
    show "advances ctx (insertText [newline] c)"
      by (rule advances_trans [OF a advances_insertText]) simp
    show "advances ctx (handleHorizontalRule c)"
      by (rule advances_trans [OF a advances_handleHorizontalRule])
    show "case handleListItemOpen c of Inl e \<Rightarrow> True | Inr c' \<Rightarrow> advances ctx c'"
    proof (cases "handleListItemOpen c")
      case (Inr c')
      then have "advances c c'" using advances_handleListItemOpen [of c] by simp
      then show ?thesis using Inr advances_trans [OF a] by simp
    qed simp
    show "case handleListItemClose c of Inl e \<Rightarrow> True | Inr c' \<Rightarrow> advances ctx c'"
    proof (cases "handleListItemClose c")
      case (Inr c')
      then have "advances c c'" using advances_handleListItemClose [of c] by simp
      then show ?thesis using Inr advances_trans [OF a] by simp
    qed simp
  next
    fix tok c assume a: "advances ctx c"
    show "advances ctx (handleHeadingOpen tok c)" using a by (simp add: advances_then)
    show "advances ctx (handleTextToken tok c)"
      by (rule advances_trans [OF a advances_handleTextToken])
    show "advances ctx (handleCodeInlineToken tok c)"
      by (rule advances_trans [OF a advances_handleCodeInlineToken])
    show "advances ctx (handleCodeBlockToken tok c)"
      by (rule advances_trans [OF a advances_handleCodeBlockToken])
  next
    fix st c assume a: "advances ctx c"
    show "advances ctx (pushFormatting st c)" using a by (simp add: advances_then)
  next
    fix k c assume a: "advances ctx c"
    show "advances ctx (popFormatting c k)" using a by (simp add: advances_then)
  next
    fix ls c assume a: "advances ctx c"
    show "advances ctx (c\<lparr>listStack := ls\<rparr>)" using a by (simp add: advances_then)
  qed
qed



lemma advances_processTokens:
  "processTokens ts ctx = Inr ctx' \<Longrightarrow> advances ctx ctx'"
proof (induction ts arbitrary: ctx)
  case Nil
  then show ?case by simp
next
  case (Cons t ts)
  from Cons.prems obtain c1 where 1: "processToken t ctx = Inr c1"
    and 2: "processTokens ts c1 = Inr ctx'"
    by (auto split: sum.splits)
  show ?case
    by (rule advances_trans [OF advances_processToken [OF 1] Cons.IH [OF 2]])
qed

lemma advances_nonempty:
  "advances c c' \<Longrightarrow> insertRequests c \<noteq> [] \<Longrightarrow> insertRequests c' \<noteq> []"
  by (auto simp: advances_iff)

lemma advances_mono: "advances c c' \<Longrightarrow> currentIndex c \<le> currentIndex c'"
  using replayInserts_sum by (auto simp: advances_iff)

lemma handleParagraphClose_inserts: "insertRequests (handleParagraphClose c) \<noteq> []"
  by (simp add: handleParagraphClose_def Let_def lastInsertEndsWithNewline_def
      lastInsertText_def split: option.split)

lemma handleHorizontalRule_inserts: "insertRequests (handleHorizontalRule c) \<noteq> []"
  by (simp add: handleHorizontalRule_def Let_def)

lemma codeBlockLines_inserts: "ls \<noteq> [] \<Longrightarrow> insertRequests (codeBlockLines ls c) \<noteq> []"
  using codeBlockLines_last [of ls c] by (auto simp: lastInsertText_def split: if_splits)

lemma handleCodeBlockToken_inserts: "insertRequests (handleCodeBlockToken tok c) \<noteq> []"
  by (simp add: handleCodeBlockToken_def Let_def codeBlockLines_inserts)

lemma insertingToken_inserts:
  "processToken t ctx = Inr ctx' \<Longrightarrow> insertingToken t \<Longrightarrow> insertRequests ctx' \<noteq> []"
  "processTokens ts ctx = Inr ctx' \<Longrightarrow> \<exists>t\<in>set ts. insertingToken t \<Longrightarrow> insertRequests ctx' \<noteq> []"
proof (induction t ctx and ts ctx arbitrary: ctx' and ctx' rule: processToken_processTokens.induct)
  case (1 ty tg c ats ch ctx)
  show ?case
  proof (cases "ty = ''inline''")
    case True
    with "1.prems"(2) obtain cs where ch: "ch = Some cs" and ex: "\<exists>t\<in>set cs. insertingToken t"
      by (auto split: option.splits)
    have "processTokens cs ctx = Inr ctx'" using "1.prems"(1) True ch by simp
    then show ?thesis using "1.IH" [of cs ctx'] True ch ex by simp
  next
    case False
    with "1.prems"(2)
    have d: "ty = ''paragraph_close'' \<or> ty = ''hr'' \<or> ty = ''fence'' \<or> ty = ''code_block''
               \<or> ty = ''softbreak'' \<or> ty = ''hardbreak''"
      by simp
    from d show ?thesis
    proof (elim disjE)
      assume "ty = ''paragraph_close''"
      then have "ctx' = handleParagraphClose ctx" using "1.prems"(1) by simp
      then show ?thesis by (simp add: handleParagraphClose_inserts)
    next
      assume "ty = ''hr''"
      then have "ctx' = handleHorizontalRule ctx" using "1.prems"(1) by simp
      then show ?thesis by (simp add: handleHorizontalRule_inserts)
    next
      assume "ty = ''fence''"
      then have "ctx' = handleCodeBlockToken (Token ty tg c ats ch) ctx"
        using "1.prems"(1) by simp
      then show ?thesis by (simp add: handleCodeBlockToken_inserts)
    next
      assume "ty = ''code_block''"
      then have "ctx' = handleCodeBlockToken (Token ty tg c ats ch) ctx"
        using "1.prems"(1) by simp
      then show ?thesis by (simp add: handleCodeBlockToken_inserts)
    next
      assume "ty = ''softbreak''"
      then have "ctx' = insertText '' '' ctx" using "1.prems"(1) by simp
      then show ?thesis by simp
    next
      assume "ty = ''hardbreak''"
      then have "ctx' = insertText [newline] ctx" using "1.prems"(1) by simp
      then show ?thesis by simp
    qed
  qed
next
  case (2 ctx)
  then show ?case by simp
next
  case (3 t ts ctx)
  from "3.prems"(1) obtain c1 where 1: "processToken t ctx = Inr c1"
    and 2: "processTokens ts c1 = Inr ctx'"
    by (auto split: sum.splits)
  show ?case
  proof (cases "insertingToken t")
    case True
    then have "insertRequests c1 \<noteq> []" using "3.IH"(1) [OF 1] by simp
    then show ?thesis using advances_nonempty [OF advances_processTokens [OF 2]] by simp
  next
    case False
    then have "\<exists>t\<in>set ts. insertingToken t" using "3.prems"(2) by simp
    then show ?thesis using "3.IH"(2) [OF 1 2] by simp
  qed
qed

lemma formatRequests_processTokens:
  "processTokens ts ctx = Inr ctx' \<Longrightarrow> formatRequests ctx' = formatRequests ctx"
proof -
  assume r: "processTokens ts ctx = Inr ctx'"
  have "formatRequests ctx = formatRequests ctx" by simp
  with r show ?thesis
    by (rule processToken_invariant(2) [where P = "\<lambda>c. formatRequests c = formatRequests ctx",
          rotated -2])
      (auto simp: handleListItemOpen_fields(1) handleListItemClose_fields(1) split: sum.split)
qed


lemma isInsertText_simps [simp]:
  "isInsertText (InsertText loc t) = True"
  "isInsertText (UpdateTextStyle rg st) = False"
  "isInsertText (UpdateParagraphStyle rg n) = False"
  "isInsertText (UpdateParagraphBorder rg) = False"
  "isInsertText (CreateParagraphBullets rg p) = False"
  by (simp_all add: isInsertText_def)

lemma textRangeRequests_no_inserts:
  "r \<in> set (textRangeRequests tab rng) \<Longrightarrow> \<not> isInsertText r"
proof -
  assume "r \<in> set (textRangeRequests tab rng)"
  then obtain rg st where "r = UpdateTextStyle rg st"
    unfolding textRangeRequests_def buildUpdateTextStyleRequest_def option.case
    by (cases "truthyBool (fs_bold (tr_formatting rng)) \<or> truthyBool (fs_italic (tr_formatting rng))
         \<or> truthyBool (fs_strikethrough (tr_formatting rng))
         \<or> truthyBool (fs_code (tr_formatting rng))";
        cases "truthyString (fs_link (tr_formatting rng))") auto
  then show ?thesis by simp
qed

lemma paragraphRangeRequests_no_inserts:
  "r \<in> set (paragraphRangeRequests tab p) \<Longrightarrow> \<not> isInsertText r"
  by (auto simp: paragraphRangeRequests_def buildUpdateParagraphStyleRequest_def
      split: if_splits option.splits)

lemma bulletRequests_no_inserts:
  "r \<in> set (bulletRequests tab items) \<Longrightarrow> \<not> isInsertText r"
  by (auto simp: bulletRequests_def bulletRequest_def)

lemma finalize_no_inserts:
  assumes "formatRequests ctx = []" and "r \<in> set (formatRequests (finalizeFormatting ctx))"
  shows "\<not> isInsertText r"
proof -
  from assms have "r \<in> (\<Union>x\<in>set (textRanges ctx). set (textRangeRequests (tabId ctx) x))
      \<or> r \<in> (\<Union>x\<in>set (paragraphRanges ctx). set (paragraphRangeRequests (tabId ctx) x))
      \<or> r \<in> hrRangeRequest (tabId ctx) ` set (hrRanges ctx)
      \<or> r \<in> set (bulletRequests (tabId ctx) (pendingListItems ctx))"
    by (auto simp: finalizeFormatting_def)
  then show ?thesis
    using textRangeRequests_no_inserts paragraphRangeRequests_no_inserts
      bulletRequests_no_inserts
    by (auto simp: hrRangeRequest_def)
qed

lemma runTokens_advances:
  assumes "runTokens tokens startIndex tab opt = Inr ctx"
  shows "replayInserts startIndex (insertRequests ctx) = Some (currentIndex ctx)"
    and "formatRequests ctx = []"
proof -
  let ?c0 = "initialContext startIndex tab opt"
  have p: "processTokens tokens ?c0 = Inr ctx" using assms by (simp add: runTokens_def)
  from advances_processTokens [OF p]
  show "replayInserts startIndex (insertRequests ctx) = Some (currentIndex ctx)"
    by (simp add: advances_def initialContext_def)
  from formatRequests_processTokens [OF p]
  show "formatRequests ctx = []" by (simp add: initialContext_def)
qed

text \<open>
  Claim C2, as the code has it. The cursor starts at \<open>startIndex\<close>; whatever token is
  processed, the insertions are only added to, every added one is an \<open>insertText\<close> of a
  non-empty text located at the cursor and moves the cursor on by the length of its text,
  so the cursor never decreases. When the walk over the tokens ends, the cursor is
  \<open>startIndex\<close> plus the sum of the lengths of all inserted texts, the insertions of the
  walk are exactly the \<open>insertText\<close> operations of the output, and there is at least one
  exactly when the cursor has moved; that is so whenever the stream holds a
  paragraph_close, hr, fence or code_block token, or an inline token with a softbreak or
  hardbreak child, but not for every non-empty stream.
\<close>

theorem cursor_tracks_insertions:
  assumes "runTokens tokens startIndex tab opt = Inr ctx"
  shows "replayInserts startIndex (insertRequests ctx) = Some (currentIndex ctx)
    \<and> currentIndex ctx = startIndex + insertedLength (insertRequests ctx)
    \<and> startIndex \<le> currentIndex ctx
    \<and> (\<forall>t c c'. processToken t c = Inr c' \<longrightarrow> advances c c' \<and> currentIndex c \<le> currentIndex c')
    \<and> (\<exists>fmt. compileTokens tokens startIndex tab opt = Inr (insertRequests ctx @ fmt)
          \<and> (\<forall>r\<in>set (insertRequests ctx). isInsertText r)
          \<and> (\<forall>r\<in>set fmt. \<not> isInsertText r))
    \<and> (insertRequests ctx \<noteq> [] \<longleftrightarrow> startIndex < currentIndex ctx)
    \<and> ((\<exists>t\<in>set tokens. insertingToken t) \<longrightarrow> insertRequests ctx \<noteq> [])"
proof -
  note r = runTokens_advances [OF assms]
  note s = replayInserts_sum [OF r(1)]
  have p: "processTokens tokens (initialContext startIndex tab opt) = Inr ctx"
    using assms by (simp add: runTokens_def)
  have step: "\<forall>t c c'. processToken t c = Inr c' \<longrightarrow> advances c c' \<and> currentIndex c \<le> currentIndex c'"
    using advances_processToken advances_mono by blast
  have out: "\<exists>fmt. compileTokens tokens startIndex tab opt = Inr (insertRequests ctx @ fmt)
          \<and> (\<forall>r\<in>set (insertRequests ctx). isInsertText r)
          \<and> (\<forall>r\<in>set fmt. \<not> isInsertText r)"
  proof (intro exI conjI)
    show "compileTokens tokens startIndex tab opt =
            Inr (insertRequests ctx @ formatRequests (finalizeFormatting ctx))"
      using assms by (simp add: compileTokens_def Let_def finalizeFormatting_def)
    show "\<forall>r\<in>set (insertRequests ctx). isInsertText r" using s by blast
    show "\<forall>r\<in>set (formatRequests (finalizeFormatting ctx)). \<not> isInsertText r"
      using finalize_no_inserts [OF r(2)] by blast
  qed
  have ins: "(\<exists>t\<in>set tokens. insertingToken t) \<longrightarrow> insertRequests ctx \<noteq> []"
    using insertingToken_inserts(2) [OF p] by blast
  show ?thesis using r(1) s step out ins by blast
qed

theorem cursor_tracks_insertions_witness:
  "\<not> isl (runTokens tokensABC 1 None None)
   \<and> currentIndex (projr (runTokens tokensABC 1 None None)) = 7
   \<and> insertedLength (insertRequests (projr (runTokens tokensABC 1 None None))) = 6
   \<and> replayInserts 1 (insertRequests (projr (runTokens tokensABC 1 None None))) = Some 7"
proof -
  have a: "\<not> isl (runTokens tokensABC 1 None None)" by code_simp
  then have b: "runTokens tokensABC 1 None None = Inr (projr (runTokens tokensABC 1 None None))"
    by simp
  have c: "currentIndex (projr (runTokens tokensABC 1 None None)) = 7" by code_simp
  from cursor_tracks_insertions [OF b] c a show ?thesis by simp
qed

text \<open>A token stream that is not empty and compiles to no operation at all: the claim's
  "at least one \<open>InsertText\<close> for every non-empty input" fails on it.\<close>

theorem no_insertion_counterexample:
  "tokensEmptyBlockquote \<noteq> [] \<and> compileTokens tokensEmptyBlockquote 1 None None = Inr []"
  by (simp add: tokensEmptyBlockquote_def simpleToken_def compileTokens_def runTokens_def
      initialContext_def finalizeFormatting_def bulletRequests_def mergeListRanges_def
      validListItems_def)

subsection \<open>Errors\<close>

lemma openItemsValid_processToken:
  "processToken t ctx = Inr ctx' \<Longrightarrow> openItemsValid ctx \<Longrightarrow> openItemsValid ctx'"
proof (rule processToken_invariant(1) [where P = openItemsValid and t = t and ctx = ctx])
  fix c assume a: "openItemsValid c"
  show "case handleListItemOpen c of Inl e \<Rightarrow> True | Inr c' \<Rightarrow> openItemsValid c'"
  proof (cases "handleListItemOpen c")
    case (Inr c')
    from handleListItemOpen_fields(6,7) [OF Inr] a show ?thesis
      by (auto simp: Inr openItemsValid_def)
  qed simp
  show "case handleListItemClose c of Inl e \<Rightarrow> True | Inr c' \<Rightarrow> openItemsValid c'"
  proof (cases "handleListItemClose c")
    case (Inr c')
    from handleListItemClose_fields(6,7) [OF Inr] a show ?thesis
      by (auto simp: Inr openItemsValid_def dest: in_set_butlastD)
  qed simp
qed (simp_all add: openItemsValid_def)


lemma handleListItemOpen_result:
  "handleListItemOpen ctx =
     (if listStack ctx = [] then Inl structuralViolation
      else Inr (projr (handleListItemOpen ctx)))"
  by (simp add: handleListItemOpen_def Let_def structuralViolation_def)

lemma handleListItemClose_result:
  "openItemsValid ctx \<Longrightarrow> handleListItemClose ctx = Inr (projr (handleListItemClose ctx))"
  by (simp add: handleListItemClose_def Let_def openItemsValid_def)

text \<open>The walk fails exactly where the scan of the token types finds the violation, and
  with the structural error; otherwise the list stack has the scanned depth.\<close>

lemma walk_scan:
  "openItemsValid ctx \<Longrightarrow>
     (case processToken t ctx of
        Inl e \<Rightarrow> e = structuralViolation \<and> openListsAfter t (length (listStack ctx)) = None
      | Inr c' \<Rightarrow> openListsAfter t (length (listStack ctx)) = Some (length (listStack c')))"
  "openItemsValid ctx \<Longrightarrow>
     (case processTokens ts ctx of
        Inl e \<Rightarrow> e = structuralViolation \<and> openListsAfterAll ts (length (listStack ctx)) = None
      | Inr c' \<Rightarrow> openListsAfterAll ts (length (listStack ctx)) = Some (length (listStack c')))"
proof (induction t ctx and ts ctx rule: processToken_processTokens.induct)
  case (1 ty tg c ats ch ctx)
  let ?t = "Token ty tg c ats ch" and ?d = "length (listStack ctx)"
  show ?case
  proof (cases "ty = ''inline''")
    case True
    show ?thesis
    proof (cases ch)
      case None
      then show ?thesis using True by simp
    next
      case (Some cs)
      have p: "processToken ?t ctx = processTokens cs ctx" using True Some by simp
      have o: "openListsAfter ?t ?d = openListsAfterAll cs ?d" using True Some by simp
      from "1.IH" [of cs] True Some "1.prems" show ?thesis unfolding p o by simp
    qed
  next
    case ni: False
    show ?thesis
    proof (cases "ty = ''list_item_open''")
      case True
      have p: "processToken ?t ctx = handleListItemOpen ctx" using True by simp
      have o: "openListsAfter ?t ?d = (if ?d = 0 then None else Some ?d)" using True by simp
      show ?thesis
      proof (cases "listStack ctx = []")
        case e: True
        then have "handleListItemOpen ctx = Inl structuralViolation"
          using handleListItemOpen_result [of ctx] by simp
        then show ?thesis unfolding p o using e by simp
      next
        case ne: False
        then have r: "handleListItemOpen ctx = Inr (projr (handleListItemOpen ctx))"
          using handleListItemOpen_result [of ctx] by simp
        have "listStack (projr (handleListItemOpen ctx)) = listStack ctx"
          by (rule handleListItemOpen_fields(4) [OF r])
        then show ?thesis unfolding p o using ne by (subst r) simp
      qed
    next
      case nio: False
      show ?thesis
      proof (cases "ty = ''list_item_close''")
        case True
        have p: "processToken ?t ctx = handleListItemClose ctx" using True by simp
        have o: "openListsAfter ?t ?d = Some ?d" using True by simp
        have r: "handleListItemClose ctx = Inr (projr (handleListItemClose ctx))"
          using "1.prems" by (rule handleListItemClose_result)
        have "listStack (projr (handleListItemClose ctx)) = listStack ctx"
          by (rule handleListItemClose_fields(4) [OF r])
        then show ?thesis unfolding p o by (subst r) simp
      next
        case nic: False
        let ?n = "if ty = ''bullet_list_open'' \<or> ty = ''ordered_list_open'' then ?d + 1
                    else if ty = ''bullet_list_close'' \<or> ty = ''ordered_list_close'' then ?d - 1
                    else ?d"
        have "case processToken ?t ctx of Inl e \<Rightarrow> False
              | Inr c' \<Rightarrow> length (listStack c') = ?n"
          using ni nio nic by (simp split: option.split)
        then obtain c' where p: "processToken ?t ctx = Inr c'"
          and l: "length (listStack c') = ?n"
          by (cases "processToken ?t ctx") simp_all
        have o: "openListsAfter ?t ?d =
                   Some (if ty = ''bullet_list_open'' \<or> ty = ''ordered_list_open'' then ?d + 1
                    else if ty = ''bullet_list_close'' \<or> ty = ''ordered_list_close'' then ?d - 1
                    else ?d)"
          using ni nio by simp
        show ?thesis unfolding p o using l by simp
      qed
    qed
  qed
next
  case (2 ctx)
  then show ?case by simp
next
  case (3 t ts ctx)
  show ?case
  proof (cases "processToken t ctx")
    case (Inl e)
    then have p: "processTokens (t # ts) ctx = Inl e" by simp
    from "3.IH"(1) [OF "3.prems"] Inl
    have "e = structuralViolation" "openListsAfter t (length (listStack ctx)) = None"
      by simp_all
    then show ?thesis unfolding p by simp
  next
    case (Inr c1)
    have v: "openItemsValid c1" using openItemsValid_processToken [OF Inr "3.prems"] .
    from "3.IH"(1) [OF "3.prems"] Inr
    have d: "openListsAfter t (length (listStack ctx)) = Some (length (listStack c1))" by simp
    have o: "openListsAfterAll (t # ts) (length (listStack ctx)) =
               openListsAfterAll ts (length (listStack c1))"
      using d by simp
    have p: "processTokens (t # ts) ctx = processTokens ts c1" using Inr by simp
    from "3.IH"(2) [OF Inr v] show ?thesis unfolding o p .
  qed
qed


lemma removeFirst_none: "\<not> (\<exists>x\<in>set xs. p x) \<Longrightarrow> removeFirst p xs = xs"
  by (induction xs) auto

lemma popFormatting_unmatched:
  "\<not> (\<exists>s\<in>set (formattingStack ctx). hasKey k s) \<Longrightarrow> popFormatting ctx k = ctx"
  by (simp add: popFormatting_def removeFirst_none)

lemma unmatchedClose_noop:
  assumes "unmatchedClose ty ctx"
  shows "processToken (Token ty tg c ats ch) ctx = Inr ctx"
  using assms unfolding unmatchedClose_def
proof (elim disjE conjE)
  assume "ty = ''strong_close''" "\<not> (\<exists>s\<in>set (formattingStack ctx). hasKey KeyBold s)"
  then show ?thesis by (simp add: popFormatting_unmatched)
next
  assume "ty = ''em_close''" "\<not> (\<exists>s\<in>set (formattingStack ctx). hasKey KeyItalic s)"
  then show ?thesis by (simp add: popFormatting_unmatched)
next
  assume "ty = ''s_close''" "\<not> (\<exists>s\<in>set (formattingStack ctx). hasKey KeyStrikethrough s)"
  then show ?thesis by (simp add: popFormatting_unmatched)
next
  assume "ty = ''link_close''" "\<not> (\<exists>s\<in>set (formattingStack ctx). hasKey KeyLink s)"
  then show ?thesis by (simp add: popFormatting_unmatched)
next
  assume "ty = ''bullet_list_close''" "listStack ctx = []"
  then show ?thesis by simp
next
  assume "ty = ''ordered_list_close''" "listStack ctx = []"
  then show ?thesis by simp
next
  assume "ty = ''list_item_close''" "openListItemStack ctx = []"
  then show ?thesis by (simp add: handleListItemClose_def)
qed

lemma runTokens_scan:
  "case runTokens tokens startIndex tab opt of
     Inl e \<Rightarrow> e = structuralViolation \<and> listItemOutsideList tokens
   | Inr ctx \<Rightarrow> \<not> listItemOutsideList tokens"
proof -
  let ?c0 = "initialContext startIndex tab opt"
  have v: "openItemsValid ?c0" by (simp add: openItemsValid_def initialContext_def)
  have l: "length (listStack ?c0) = 0" by (simp add: initialContext_def)
  from walk_scan(2) [OF v, of tokens] show ?thesis
    unfolding runTokens_def listItemOutsideList_def l
    by (cases "processTokens tokens ?c0") simp_all
qed

text \<open>
  Claim C3. Compilation ends in the structural error exactly when the walk meets a
  \<open>list_item_open\<close> token while no list is open, and otherwise returns requests. Whatever
  the walk throws passes through the \<open>catch\<close> clause, which hands a
  \<open>MarkdownConversionError\<close> on unchanged and wraps any other error into one. A
  formatting close, list close or list-item close with nothing to close returns the state
  as it was.
\<close>

theorem structural_violation_iff:
  "(compileTokens tokens startIndex tab opt = Inl structuralViolation
      \<longleftrightarrow> listItemOutsideList tokens)
   \<and> (\<not> listItemOutsideList tokens \<longrightarrow> \<not> isl (compileTokens tokens startIndex tab opt))
   \<and> (\<forall>e. runTokens tokens startIndex tab opt = Inl e
          \<longrightarrow> compileTokens tokens startIndex tab opt = Inl (wrapError e))
   \<and> (\<forall>m. wrapError (MarkdownConversionError m) = MarkdownConversionError m)
   \<and> (\<forall>m. wrapError (JsError m) = MarkdownConversionError (''Failed to convert markdown: '' @ m))
   \<and> (\<forall>ctx ty tg c ats ch. unmatchedClose ty ctx
          \<longrightarrow> processToken (Token ty tg c ats ch) ctx = Inr ctx)"
proof (intro conjI allI impI)
  show "compileTokens tokens startIndex tab opt = Inl structuralViolation
      \<longleftrightarrow> listItemOutsideList tokens"
    using runTokens_scan [of tokens startIndex tab opt]
    by (cases "runTokens tokens startIndex tab opt")
      (simp_all add: compileTokens_def wrapError_def structuralViolation_def Let_def)
  show "\<not> isl (compileTokens tokens startIndex tab opt)" if "\<not> listItemOutsideList tokens"
    using runTokens_scan [of tokens startIndex tab opt] that
    by (cases "runTokens tokens startIndex tab opt") (simp_all add: compileTokens_def Let_def)
  show "compileTokens tokens startIndex tab opt = Inl (wrapError e)"
    if "runTokens tokens startIndex tab opt = Inl e" for e
    using that by (simp add: compileTokens_def)
  show "wrapError (MarkdownConversionError m) = MarkdownConversionError m" for m
    by (simp add: wrapError_def)
  show "wrapError (JsError m) = MarkdownConversionError (''Failed to convert markdown: '' @ m)" for m
    by (simp add: wrapError_def)
  show "processToken (Token ty tg c ats ch) ctx = Inr ctx" if "unmatchedClose ty ctx"
    for ctx ty tg c ats ch
    using that by (rule unmatchedClose_noop)
qed

theorem structural_violation_iff_witness:
  "listItemOutsideList tokensStrayItem
   \<and> compileTokens tokensStrayItem 1 None None =
       Inl (MarkdownConversionError ''List item found outside of list context'')
   \<and> \<not> listItemOutsideList tokensABC
   \<and> \<not> isl (compileTokens tokensABC 1 None None)
   \<and> unmatchedClose ''strong_close'' (initialContext 1 None None)
   \<and> processToken (simpleToken ''strong_close'' ''strong'') (initialContext 1 None None) =
       Inr (initialContext 1 None None)"
proof -
  have a: "listItemOutsideList tokensStrayItem"
    by (simp add: listItemOutsideList_def tokensStrayItem_def simpleToken_def)
  have b: "\<not> listItemOutsideList tokensABC"
    by (simp add: listItemOutsideList_def tokensABC_def listItemTokens_def simpleToken_def
        inlineToken_def textToken_def)
  have u: "unmatchedClose ''strong_close'' (initialContext 1 None None)"
    by (simp add: unmatchedClose_def initialContext_def)
  from structural_violation_iff [of tokensStrayItem 1 None None] a
  have 1: "compileTokens tokensStrayItem 1 None None = Inl structuralViolation" by blast
  from structural_violation_iff [of tokensABC 1 None None] b
  have 2: "\<not> isl (compileTokens tokensABC 1 None None)" by blast
  from structural_violation_iff [of tokensABC 1 None None] u
  have 3: "processToken (Token ''strong_close'' ''strong'' [] None None) (initialContext 1 None None) =
       Inr (initialContext 1 None None)" by blast
  show ?thesis using a b u 1 2 3 by (simp add: structuralViolation_def simpleToken_def)
qed

subsection \<open>Title promotion\<close>























subsection \<open>Merged bullet ranges\<close>

lemma isBulletRequest_simps [simp]:
  "isBulletRequest (InsertText loc t) = False"
  "isBulletRequest (UpdateTextStyle rg st) = False"
  "isBulletRequest (UpdateParagraphStyle rg n) = False"
  "isBulletRequest (UpdateParagraphBorder rg) = False"
  "isBulletRequest (CreateParagraphBullets rg p) = True"
  by (simp_all add: isBulletRequest_def)

lemma filter_bullets_none:
  "(\<forall>r\<in>set xs. \<not> isBulletRequest r) \<Longrightarrow> filter isBulletRequest xs = []"
  by (simp add: filter_empty_conv)

lemma filter_bullets_all:
  "(\<forall>r\<in>set xs. isBulletRequest r) \<Longrightarrow> filter isBulletRequest xs = xs"
  by (simp add: filter_id_conv)

lemma textRangeRequests_shape:
  "r \<in> set (textRangeRequests tab x) \<Longrightarrow> \<exists>g st. r = UpdateTextStyle g st"
  unfolding textRangeRequests_def buildUpdateTextStyleRequest_def option.case
  by (cases "truthyBool (fs_bold (tr_formatting x)) \<or> truthyBool (fs_italic (tr_formatting x))
         \<or> truthyBool (fs_strikethrough (tr_formatting x))
         \<or> truthyBool (fs_code (tr_formatting x))";
      cases "truthyString (fs_link (tr_formatting x))") auto

lemma filter_bullets_finalize:
  assumes "formatRequests ctx = []"
  shows "filter isBulletRequest (formatRequests (finalizeFormatting ctx)) =
           bulletRequests (tabId ctx) (pendingListItems ctx)"
proof -
  have 1: "filter isBulletRequest (concat (map (textRangeRequests (tabId ctx)) (textRanges ctx))) = []"
    by (rule filter_bullets_none) (auto dest: textRangeRequests_shape)
  have 2: "filter isBulletRequest
             (concat (map (paragraphRangeRequests (tabId ctx)) (paragraphRanges ctx))) = []"
    by (rule filter_bullets_none)
      (auto simp: paragraphRangeRequests_def buildUpdateParagraphStyleRequest_def
        split: option.splits if_splits)
  have 3: "filter isBulletRequest (map (hrRangeRequest (tabId ctx)) (hrRanges ctx)) = []"
    by (rule filter_bullets_none) (auto simp: hrRangeRequest_def)
  have 4: "filter isBulletRequest (bulletRequests (tabId ctx) (pendingListItems ctx)) =
             bulletRequests (tabId ctx) (pendingListItems ctx)"
    by (rule filter_bullets_all) (auto simp: bulletRequests_def bulletRequest_def)
  show ?thesis using assms by (simp add: finalizeFormatting_def 1 2 3 4)
qed

lemma bulletRequests_descending:
  "sorted_wrt (\<lambda>a b. bulletStart b \<le> bulletStart a) (bulletRequests tab items)"
proof -
  let ?ms = "sort_key (\<lambda>m. - mr_startIndex m) (mergeListRanges (validListItems items))"
  have "sorted (map (\<lambda>m. - mr_startIndex m) ?ms)" by (rule sorted_sort_key)
  then have "sorted_wrt (\<lambda>a b. mr_startIndex b \<le> mr_startIndex a) ?ms"
    by (simp add: sorted_map)
  then show ?thesis
    by (simp add: bulletRequests_def sorted_wrt_map bulletRequest_def bulletStart_def)
qed

lemma validListItems_facts:
  "set (validListItems items) = {i \<in> set items. validListItem i}"
  "sorted (map pli_startIndex (validListItems items))"
  "length (validListItems items) = length (filter validListItem items)"
  by (auto simp: validListItems_def sorted_sort_key)

lemma mergeListRanges_snoc:
  "mergeListRanges (xs @ [item]) = mergeListItem (mergeListRanges xs) item"
  by (simp add: mergeListRanges_def)

lemma mergeListItem_cases:
  "(acc \<noteq> [] \<and> mergesInto (last acc) item \<longrightarrow>
      mergeListItem acc item =
        butlast acc @
        [(last acc)\<lparr>mr_endIndex := max (mr_endIndex (last acc)) (the (pli_endIndex item))\<rparr>])
   \<and> (\<not> (acc \<noteq> [] \<and> mergesInto (last acc) item) \<longrightarrow>
      mergeListItem acc item =
        acc @ [\<lparr>mr_startIndex = pli_startIndex item, mr_endIndex = the (pli_endIndex item),
                 mr_bulletPreset = pli_bulletPreset item\<rparr>])"
  by (auto simp: mergeListItem_def mergesInto_def)

lemma mergeListItem_length:
  "length (mergeListItem acc item) =
     (if acc \<noteq> [] \<and> mergesInto (last acc) item then length acc else length acc + 1)"
  by (auto simp: mergeListItem_def mergesInto_def)

lemma compile_tokensABC:
  "compileTokens tokensABC 1 None None =
     Inr [InsertText \<lparr>loc_index = 1, loc_tabId = None\<rparr> ''A'',
          InsertText \<lparr>loc_index = 2, loc_tabId = None\<rparr> [newline],
          InsertText \<lparr>loc_index = 3, loc_tabId = None\<rparr> ''B'',
          InsertText \<lparr>loc_index = 4, loc_tabId = None\<rparr> [newline],
          InsertText \<lparr>loc_index = 5, loc_tabId = None\<rparr> ''C'',
          InsertText \<lparr>loc_index = 6, loc_tabId = None\<rparr> [newline],
          CreateParagraphBullets \<lparr>rg_startIndex = 1, rg_endIndex = 6, rg_tabId = None\<rparr>
            BULLET_DISC_CIRCLE_SQUARE]"
  by code_simp

lemma compile_tokensAXB:
  "compileTokens tokensAXB 1 None None =
     Inr [InsertText \<lparr>loc_index = 1, loc_tabId = None\<rparr> ''A'',
          InsertText \<lparr>loc_index = 2, loc_tabId = None\<rparr> [newline],
          InsertText \<lparr>loc_index = 3, loc_tabId = None\<rparr> ''X'',
          InsertText \<lparr>loc_index = 4, loc_tabId = None\<rparr> [newline],
          InsertText \<lparr>loc_index = 5, loc_tabId = None\<rparr> ''B'',
          InsertText \<lparr>loc_index = 6, loc_tabId = None\<rparr> [newline],
          UpdateTextStyle \<lparr>rg_startIndex = 3, rg_endIndex = 4, rg_tabId = None\<rparr>
            \<lparr>arg_bold = Some True, arg_italic = None, arg_strikethrough = None,
             arg_fontFamily = None, arg_foregroundColor = None,
             arg_backgroundColor = None, arg_linkUrl = None\<rparr>,
          CreateParagraphBullets \<lparr>rg_startIndex = 5, rg_endIndex = 6, rg_tabId = None\<rparr>
            BULLET_DISC_CIRCLE_SQUARE,
          CreateParagraphBullets \<lparr>rg_startIndex = 1, rg_endIndex = 2, rg_tabId = None\<rparr>
            BULLET_DISC_CIRCLE_SQUARE]"
  by code_simp


text \<open>
  Claim C1. The pending list items kept are those with a resolved end offset greater than
  their start offset, sorted by start offset. Walking them in that order, an item is
  merged into the last merged range, extending its end, if and only if there is one, its
  preset is the item's and the item starts at most one past its end; otherwise the item
  starts a new merged range. The bullet requests of every compiled output are one per
  merged range, in descending order of start offset. The tokens of \<open>- A\n- B\n- C\<close>
  compile to one bullet request, those of \<open>- A\n\n**X**\n\n- B\<close> to two, neither covering
  the offsets 3 and 4 of the paragraph in between.
\<close>

theorem bullet_ranges_merged:
  "(\<forall>tokens startIndex tab opt ctx reqs.
      runTokens tokens startIndex tab opt = Inr ctx
      \<and> compileTokens tokens startIndex tab opt = Inr reqs
      \<longrightarrow> filter isBulletRequest reqs =
            map (bulletRequest (tabId ctx))
              (sort_key (\<lambda>m. - mr_startIndex m)
                 (mergeListRanges (validListItems (pendingListItems ctx))))
        \<and> length (filter isBulletRequest reqs) =
            length (mergeListRanges (validListItems (pendingListItems ctx)))
        \<and> sorted_wrt (\<lambda>a b. bulletStart b \<le> bulletStart a) (filter isBulletRequest reqs))
   \<and> (\<forall>items.
        set (validListItems items) =
          {i \<in> set items. \<exists>e. pli_endIndex i = Some e \<and> pli_startIndex i < e}
        \<and> length (validListItems items) = length (filter validListItem items)
        \<and> sorted (map pli_startIndex (validListItems items)))
   \<and> mergeListRanges [] = []
   \<and> (\<forall>xs item.
        mergeListRanges (xs @ [item]) =
          (if mergeListRanges xs \<noteq> [] \<and> mergesInto (last (mergeListRanges xs)) item
           then butlast (mergeListRanges xs) @
                [(last (mergeListRanges xs))
                   \<lparr>mr_endIndex := max (mr_endIndex (last (mergeListRanges xs)))
                                      (the (pli_endIndex item))\<rparr>]
           else mergeListRanges xs @
                [\<lparr>mr_startIndex = pli_startIndex item, mr_endIndex = the (pli_endIndex item),
                  mr_bulletPreset = pli_bulletPreset item\<rparr>])
        \<and> (length (mergeListRanges (xs @ [item])) = length (mergeListRanges xs)
             \<longleftrightarrow> mergeListRanges xs \<noteq> [] \<and> mergesInto (last (mergeListRanges xs)) item))
   \<and> (\<exists>reqs. compileTokens tokensABC 1 None None = Inr reqs
        \<and> filter isBulletRequest reqs =
            [CreateParagraphBullets \<lparr>rg_startIndex = 1, rg_endIndex = 6, rg_tabId = None\<rparr>
               BULLET_DISC_CIRCLE_SQUARE])
   \<and> (\<exists>reqs. compileTokens tokensAXB 1 None None = Inr reqs
        \<and> filter isBulletRequest reqs =
            [CreateParagraphBullets \<lparr>rg_startIndex = 5, rg_endIndex = 6, rg_tabId = None\<rparr>
               BULLET_DISC_CIRCLE_SQUARE,
             CreateParagraphBullets \<lparr>rg_startIndex = 1, rg_endIndex = 2, rg_tabId = None\<rparr>
               BULLET_DISC_CIRCLE_SQUARE]
        \<and> (\<forall>r\<in>set (filter isBulletRequest reqs). \<not> bulletCovers r 3 \<and> \<not> bulletCovers r 4))"
proof (intro conjI allI impI)
  fix tokens startIndex tab opt ctx reqs
  assume h: "runTokens tokens startIndex tab opt = Inr ctx
      \<and> compileTokens tokens startIndex tab opt = Inr reqs"
  then have r: "runTokens tokens startIndex tab opt = Inr ctx" by simp
  from h have c: "compileTokens tokens startIndex tab opt = Inr reqs" by simp
  have q: "reqs = insertRequests ctx @ formatRequests (finalizeFormatting ctx)"
    using c unfolding compileTokens_def r Let_def
    by (simp add: finalizeFormatting_def)
  note a = runTokens_advances [OF r]
  have "\<forall>x\<in>set (insertRequests ctx). \<not> isBulletRequest x"
    using replayInserts_sum [OF a(1)] by (auto simp: isInsertText_def isBulletRequest_def split: request.splits)
  then have i: "filter isBulletRequest (insertRequests ctx) = []" by (rule filter_bullets_none)
  have f: "filter isBulletRequest reqs = bulletRequests (tabId ctx) (pendingListItems ctx)"
    unfolding q by (simp add: i filter_bullets_finalize [OF a(2)])
  show "filter isBulletRequest reqs =
            map (bulletRequest (tabId ctx))
              (sort_key (\<lambda>m. - mr_startIndex m)
                 (mergeListRanges (validListItems (pendingListItems ctx))))"
    unfolding f by (simp add: bulletRequests_def)
  show "length (filter isBulletRequest reqs) =
            length (mergeListRanges (validListItems (pendingListItems ctx)))"
    unfolding f by (simp add: bulletRequests_def)
  show "sorted_wrt (\<lambda>a b. bulletStart b \<le> bulletStart a) (filter isBulletRequest reqs)"
    unfolding f by (rule bulletRequests_descending)
next
  fix items
  show "set (validListItems items) =
          {i \<in> set items. \<exists>e. pli_endIndex i = Some e \<and> pli_startIndex i < e}"
    by (auto simp: validListItems_facts(1) validListItem_def split: option.splits)
  show "length (validListItems items) = length (filter validListItem items)"
    by (rule validListItems_facts(3))
  show "sorted (map pli_startIndex (validListItems items))"
    by (rule validListItems_facts(2))
next
  show "mergeListRanges [] = []" by (simp add: mergeListRanges_def)
next
  fix xs item
  show "mergeListRanges (xs @ [item]) =
          (if mergeListRanges xs \<noteq> [] \<and> mergesInto (last (mergeListRanges xs)) item
           then butlast (mergeListRanges xs) @
                [(last (mergeListRanges xs))
                   \<lparr>mr_endIndex := max (mr_endIndex (last (mergeListRanges xs)))
                                      (the (pli_endIndex item))\<rparr>]
           else mergeListRanges xs @
                [\<lparr>mr_startIndex = pli_startIndex item, mr_endIndex = the (pli_endIndex item),
                  mr_bulletPreset = pli_bulletPreset item\<rparr>])"
    unfolding mergeListRanges_snoc by (simp add: mergeListItem_def mergesInto_def)
  show "length (mergeListRanges (xs @ [item])) = length (mergeListRanges xs)
             \<longleftrightarrow> mergeListRanges xs \<noteq> [] \<and> mergesInto (last (mergeListRanges xs)) item"
    unfolding mergeListRanges_snoc mergeListItem_length by simp
next
  show "\<exists>reqs. compileTokens tokensABC 1 None None = Inr reqs
        \<and> filter isBulletRequest reqs =
            [CreateParagraphBullets \<lparr>rg_startIndex = 1, rg_endIndex = 6, rg_tabId = None\<rparr>
               BULLET_DISC_CIRCLE_SQUARE]"
    by (simp add: compile_tokensABC)
next
  show "\<exists>reqs. compileTokens tokensAXB 1 None None = Inr reqs
        \<and> filter isBulletRequest reqs =
            [CreateParagraphBullets \<lparr>rg_startIndex = 5, rg_endIndex = 6, rg_tabId = None\<rparr>
               BULLET_DISC_CIRCLE_SQUARE,
             CreateParagraphBullets \<lparr>rg_startIndex = 1, rg_endIndex = 2, rg_tabId = None\<rparr>
               BULLET_DISC_CIRCLE_SQUARE]
        \<and> (\<forall>r\<in>set (filter isBulletRequest reqs). \<not> bulletCovers r 3 \<and> \<not> bulletCovers r 4)"
  proof (intro exI conjI)
    let ?out = "[InsertText \<lparr>loc_index = 1, loc_tabId = None\<rparr> ''A'',
          InsertText \<lparr>loc_index = 2, loc_tabId = None\<rparr> [newline],
          InsertText \<lparr>loc_index = 3, loc_tabId = None\<rparr> ''X'',
          InsertText \<lparr>loc_index = 4, loc_tabId = None\<rparr> [newline],
          InsertText \<lparr>loc_index = 5, loc_tabId = None\<rparr> ''B'',
          InsertText \<lparr>loc_index = 6, loc_tabId = None\<rparr> [newline],
          UpdateTextStyle \<lparr>rg_startIndex = 3, rg_endIndex = 4, rg_tabId = None\<rparr>
            \<lparr>arg_bold = Some True, arg_italic = None, arg_strikethrough = None,
             arg_fontFamily = None, arg_foregroundColor = None,
             arg_backgroundColor = None, arg_linkUrl = None\<rparr>,
          CreateParagraphBullets \<lparr>rg_startIndex = 5, rg_endIndex = 6, rg_tabId = None\<rparr>
            BULLET_DISC_CIRCLE_SQUARE,
          CreateParagraphBullets \<lparr>rg_startIndex = 1, rg_endIndex = 2, rg_tabId = None\<rparr>
            BULLET_DISC_CIRCLE_SQUARE]"
    show "compileTokens tokensAXB 1 None None = Inr ?out" by (rule compile_tokensAXB)
    have f: "filter isBulletRequest ?out =
            [CreateParagraphBullets \<lparr>rg_startIndex = 5, rg_endIndex = 6, rg_tabId = None\<rparr>
               BULLET_DISC_CIRCLE_SQUARE,
             CreateParagraphBullets \<lparr>rg_startIndex = 1, rg_endIndex = 2, rg_tabId = None\<rparr>
               BULLET_DISC_CIRCLE_SQUARE]"
      by simp
    show "filter isBulletRequest ?out =
            [CreateParagraphBullets \<lparr>rg_startIndex = 5, rg_endIndex = 6, rg_tabId = None\<rparr>
               BULLET_DISC_CIRCLE_SQUARE,
             CreateParagraphBullets \<lparr>rg_startIndex = 1, rg_endIndex = 2, rg_tabId = None\<rparr>
               BULLET_DISC_CIRCLE_SQUARE]"
      by (rule f)
    show "\<forall>r\<in>set (filter isBulletRequest ?out). \<not> bulletCovers r 3 \<and> \<not> bulletCovers r 4"
      unfolding f by (simp add: bulletCovers_def)
  qed
qed

theorem bullet_ranges_merged_witness:
  "\<not> isl (runTokens tokensAXB 1 None None)
   \<and> length (mergeListRanges
        (validListItems (pendingListItems (projr (runTokens tokensAXB 1 None None))))) = 2
   \<and> map bulletStart (filter isBulletRequest (projr (compileTokens tokensAXB 1 None None))) = [5, 1]
   \<and> sorted_wrt (\<lambda>a b. bulletStart b \<le> bulletStart a)
        (filter isBulletRequest (projr (compileTokens tokensAXB 1 None None)))"
proof -
  have a: "\<not> isl (runTokens tokensAXB 1 None None)" by code_simp
  then have r: "runTokens tokensAXB 1 None None = Inr (projr (runTokens tokensAXB 1 None None))"
    by simp
  have c: "compileTokens tokensAXB 1 None None = Inr (projr (compileTokens tokensAXB 1 None None))"
    by (simp add: compile_tokensAXB)
  note t = bullet_ranges_merged [THEN conjunct1, rule_format, OF conjI [OF r c]]
  have l: "length (filter isBulletRequest (projr (compileTokens tokensAXB 1 None None))) =
          length (mergeListRanges
             (validListItems (pendingListItems (projr (runTokens tokensAXB 1 None None)))))"
    by (rule t [THEN conjunct2, THEN conjunct1])
  have s: "sorted_wrt (\<lambda>a b. bulletStart b \<le> bulletStart a)
        (filter isBulletRequest (projr (compileTokens tokensAXB 1 None None)))"
    by (rule t [THEN conjunct2, THEN conjunct2])
  have f: "map bulletStart (filter isBulletRequest (projr (compileTokens tokensAXB 1 None None))) = [5, 1]"
    by (simp add: compile_tokensAXB bulletStart_def)
  have "length (filter isBulletRequest (projr (compileTokens tokensAXB 1 None None))) = 2"
    by (simp add: compile_tokensAXB)
  with l a s f show ?thesis by simp
qed

subsection \<open>Ranges of length zero\<close>

lemma rangesPositive_frame:
  "textRanges c' = textRanges c \<Longrightarrow> hrRanges c' = hrRanges c \<Longrightarrow> rangesPositive c
     \<Longrightarrow> rangesPositive c'"
  by (simp add: rangesPositive_def)

lemma rangesPositive_handleTextToken:
  "rangesPositive c \<Longrightarrow> rangesPositive (handleTextToken tok c)"
  by (simp add: handleTextToken_def Let_def rangesPositive_def split: option.split prod.split)

lemma rangesPositive_codeBlockLines:
  "rangesPositive c \<Longrightarrow> rangesPositive (codeBlockLines ls c)"
  using codeBlockLines_effect [of ls c] specCodeRanges_nonempty [of _ "currentIndex c" ls]
  by (auto simp: rangesPositive_def)

lemma rangesPositive_processTokens:
  "processTokens ts ctx = Inr ctx' \<Longrightarrow> rangesPositive ctx \<Longrightarrow> rangesPositive ctx'"
proof (rule processToken_invariant(2) [where P = rangesPositive and ts = ts and ctx = ctx])
  fix c assume a: "rangesPositive c"
  show "rangesPositive (handleHorizontalRule c)"
    using a by (simp add: handleHorizontalRule_def Let_def rangesPositive_def)
  show "case handleListItemOpen c of Inl e \<Rightarrow> True | Inr c' \<Rightarrow> rangesPositive c'"
  proof (cases "handleListItemOpen c")
    case (Inr c')
    from handleListItemOpen_fields(2,8) [OF Inr] a show ?thesis
      by (simp add: Inr rangesPositive_frame)
  qed simp
  show "case handleListItemClose c of Inl e \<Rightarrow> True | Inr c' \<Rightarrow> rangesPositive c'"
  proof (cases "handleListItemClose c")
    case (Inr c')
    from handleListItemClose_fields(2,8) [OF Inr] a show ?thesis
      by (simp add: Inr rangesPositive_frame)
  qed simp
next
  fix tok c assume a: "rangesPositive c"
  show "rangesPositive (handleTextToken tok c)"
    using a by (rule rangesPositive_handleTextToken)
  have "rangesPositive (pushFormatting (emptyFormatting\<lparr>fs_code := Some True\<rparr>) c)"
    using a by (simp add: rangesPositive_frame)
  then have "rangesPositive
      (handleTextToken tok (pushFormatting (emptyFormatting\<lparr>fs_code := Some True\<rparr>) c))"
    by (rule rangesPositive_handleTextToken)
  then show "rangesPositive (handleCodeInlineToken tok c)"
    by (simp add: handleCodeInlineToken_def rangesPositive_def)
  have "rangesPositive (codeBlockLines ls c)" for ls
    using a by (rule rangesPositive_codeBlockLines)
  then have "rangesPositive (insertText [newline] (codeBlockLines ls c))" for ls
    by (simp add: rangesPositive_def)
  then show "rangesPositive (handleCodeBlockToken tok c)"
    using \<open>\<And>ls. rangesPositive (codeBlockLines ls c)\<close>
    by (simp add: handleCodeBlockToken_def Let_def)
qed (simp_all add: rangesPositive_frame)

lemma mergeListItem_positive:
  assumes "\<forall>m\<in>set acc. mr_startIndex m < mr_endIndex m" and "validListItem item"
  shows "\<forall>m\<in>set (mergeListItem acc item). mr_startIndex m < mr_endIndex m"
proof (cases "acc \<noteq> [] \<and> mr_bulletPreset (last acc) = pli_bulletPreset item
         \<and> pli_startIndex item \<le> mr_endIndex (last acc) + 1")
  case True
  then have l: "mr_startIndex (last acc) < mr_endIndex (last acc)" using assms(1) by simp
  have "\<forall>m\<in>set (butlast acc). mr_startIndex m < mr_endIndex m"
    using assms(1) by (auto dest: in_set_butlastD)
  then show ?thesis using True l by (auto simp: mergeListItem_def)
next
  case False
  then show ?thesis using assms
    by (auto simp: mergeListItem_def validListItem_def split: option.splits)
qed

lemma foldl_mergeListItem_positive:
  "\<forall>m\<in>set acc. mr_startIndex m < mr_endIndex m \<Longrightarrow> \<forall>i\<in>set xs. validListItem i
     \<Longrightarrow> \<forall>m\<in>set (foldl mergeListItem acc xs). mr_startIndex m < mr_endIndex m"
proof (induction xs arbitrary: acc)
  case Nil
  then show ?case by simp
next
  case (Cons x xs)
  have "\<forall>m\<in>set (mergeListItem acc x). mr_startIndex m < mr_endIndex m"
    using Cons.prems by (intro mergeListItem_positive) simp_all
  then show ?case using Cons.IH [of "mergeListItem acc x"] Cons.prems(2) by simp
qed

lemma bulletRequests_positive:
  assumes "r \<in> set (bulletRequests tab items)"
  shows "\<exists>rg. requestRange r = Some rg \<and> rg_startIndex rg < rg_endIndex rg"
proof -
  have "\<forall>m\<in>set (mergeListRanges (validListItems items)). mr_startIndex m < mr_endIndex m"
    unfolding mergeListRanges_def
    by (rule foldl_mergeListItem_positive) (simp_all add: validListItems_def)
  then show ?thesis using assms
    by (auto simp: bulletRequests_def bulletRequest_def requestRange_def)
qed

lemma textRangeRequests_positive:
  assumes "r \<in> set (textRangeRequests tab x)" and "tr_startIndex x < tr_endIndex x"
  shows "\<exists>rg. requestRange r = Some rg \<and> rg_startIndex rg < rg_endIndex rg"
proof -
  from assms(1) have "\<exists>st. r = UpdateTextStyle
      \<lparr>rg_startIndex = tr_startIndex x, rg_endIndex = tr_endIndex x, rg_tabId = truthyTab tab\<rparr> st"
    unfolding textRangeRequests_def buildUpdateTextStyleRequest_def option.case
    by (cases "truthyBool (fs_bold (tr_formatting x)) \<or> truthyBool (fs_italic (tr_formatting x))
         \<or> truthyBool (fs_strikethrough (tr_formatting x))
         \<or> truthyBool (fs_code (tr_formatting x))";
        cases "truthyString (fs_link (tr_formatting x))") auto
  then show ?thesis using assms(2) by (auto simp: requestRange_def)
qed

text \<open>Every text-style, rule and bullet request of a compiled output has a range of
  positive length: only the paragraph ranges of headings are not guarded.\<close>

lemma other_ranges_positive:
  assumes "compileTokens tokens startIndex tab opt = Inr reqs" and "r \<in> set reqs"
  shows "(\<exists>loc t. r = InsertText loc t) \<or> (\<exists>rg n. r = UpdateParagraphStyle rg n)
       \<or> (\<exists>rg. requestRange r = Some rg \<and> rg_startIndex rg < rg_endIndex rg)"
proof -
  from assms(1) obtain ctx where r: "runTokens tokens startIndex tab opt = Inr ctx"
    and q: "reqs = insertRequests ctx @ formatRequests (finalizeFormatting ctx)"
    by (auto simp: compileTokens_def Let_def finalizeFormatting_def split: sum.splits)
  let ?c0 = "initialContext startIndex tab opt"
  have p: "processTokens tokens ?c0 = Inr ctx" using r by (simp add: runTokens_def)
  have "rangesPositive ?c0" by (simp add: rangesPositive_def initialContext_def)
  then have pos: "rangesPositive ctx" by (rule rangesPositive_processTokens [OF p])
  note a = runTokens_advances [OF r]
  from assms(2) q a(2) consider
      (ins) "r \<in> set (insertRequests ctx)"
    | (trange) x where "x \<in> set (textRanges ctx)" "r \<in> set (textRangeRequests (tabId ctx) x)"
    | (par) x where "r \<in> set (paragraphRangeRequests (tabId ctx) x)"
    | (hr) h where "h \<in> set (hrRanges ctx)" "r = hrRangeRequest (tabId ctx) h"
    | (bul) "r \<in> set (bulletRequests (tabId ctx) (pendingListItems ctx))"
    by (auto simp: finalizeFormatting_def)
  then show ?thesis
  proof cases
    case ins
    then have "isInsertText r" using replayInserts_sum [OF a(1)] by blast
    then show ?thesis by (cases r) simp_all
  next
    case trange
    then show ?thesis using textRangeRequests_positive pos by (auto simp: rangesPositive_def)
  next
    case par
    then show ?thesis
      by (auto simp: paragraphRangeRequests_def buildUpdateParagraphStyleRequest_def
          split: option.splits if_splits)
  next
    case hr
    then show ?thesis using pos
      by (auto simp: hrRangeRequest_def requestRange_def rangesPositive_def)
  next
    case bul
    then show ?thesis using bulletRequests_positive by blast
  qed
qed

text \<open>
  Claim C7 asks that no style or bullet range of length zero is ever emitted. An empty
  heading breaks it: \<open>handleHeadingClose\<close> records the paragraph range from the start of the
  heading to the cursor before it inserts the line feed, and with no text in between the
  range is empty; finalization emits it as it is.
\<close>

theorem empty_heading_zero_length_range:
  "paragraphRanges (projr (runTokens tokensEmptyHeading 1 None None)) =
     [\<lparr>pr_startIndex = 1, pr_endIndex = 1, pr_namedStyleType = Some ''HEADING_1''\<rparr>]
   \<and> compileTokens tokensEmptyHeading 1 None None =
     Inr [InsertText \<lparr>loc_index = 1, loc_tabId = None\<rparr> [newline],
          UpdateParagraphStyle \<lparr>rg_startIndex = 1, rg_endIndex = 1, rg_tabId = None\<rparr>
            ''HEADING_1'']"
  by code_simp

end
